theory Spec2Isabelle
  imports
    Main
    "HOL-Library.AList"
    "HOL-Library.Char_ord"
    "HOL-Library.List_Lexorder"
    "HOL-Library.Product_Lexorder"
    "HOL-Library.Multiset"
begin

section \<open>Strings\<close>

text \<open>
  A Python \<open>str\<close> is a sequence of code points. The model uses \<open>string\<close>, so a
  character is a code point below 256 (ASCII and Latin-1), read with \<open>of_char\<close>.
  On that range \<open>str.isspace\<close> holds for the code points 9 to 13, 28 to 32, 133
  and 160, and \<open>str.lower\<close> moves A to Z and the Latin-1 capitals 192 to 222 (215,
  the multiplication sign, apart) up by 32. Strings are ordered by code point,
  lexicographically, as Python compares them.
\<close>

definition isspace :: "char \<Rightarrow> bool" where
  "isspace c =
     (let n = (of_char c :: nat)
      in (9 \<le> n \<and> n \<le> 13) \<or> (28 \<le> n \<and> n \<le> 32) \<or> n = 133 \<or> n = 160)"

definition lower_char :: "char \<Rightarrow> char" where
  "lower_char c =
     (let n = (of_char c :: nat)
      in if (65 \<le> n \<and> n \<le> 90) \<or> (192 \<le> n \<and> n \<le> 222 \<and> n \<noteq> 215)
         then char_of (n + 32) else c)"

text \<open>\<open>s.strip()\<close>: leading and trailing whitespace removed.\<close>

definition strip :: "string \<Rightarrow> string" where
  "strip s = rev (dropWhile isspace (rev (dropWhile isspace s)))"

text \<open>\<open>s.lower()\<close>.\<close>

definition lower :: "string \<Rightarrow> string" where
  "lower s = map lower_char s"

text \<open>\<open>sep.join(xs)\<close>.\<close>

fun join :: "string \<Rightarrow> string list \<Rightarrow> string" where
  "join sep [] = []"
| "join sep [x] = x"
| "join sep (x # y # ys) = x @ sep @ join sep (y # ys)"

section \<open>Values of the front matter\<close>

text \<open>
  What \<open>yaml.safe_load\<close> can return: \<open>None\<close>, a bool, an int, a str, a list, a dict,
  or another object (a float, a date, bytes, a set). The program only asks such an
  object whether it is truthy and whether it is a str, a list or a dict, so
  \<open>PyOther\<close> carries its truth value alone. The type of the characters of a str is
  a parameter; \<open>pyval\<close> is the instance with \<open>char\<close>.
\<close>

datatype 'c pyvalue =
    PyNone
  | PyBool bool
  | PyInt int
  | PyStr "'c list"
  | PyList "'c pyvalue list"
  | PyDict "('c pyvalue \<times> 'c pyvalue) list"
  | PyOther bool

type_synonym pyval = "char pyvalue"

text \<open>\<open>bool(v)\<close>, also the test of \<open>if not v\<close> and of \<open>v or d\<close>.\<close>

fun truthy :: "'c pyvalue \<Rightarrow> bool" where
  "truthy PyNone = False"
| "truthy (PyBool b) = b"
| "truthy (PyInt i) = (i \<noteq> 0)"
| "truthy (PyStr s) = (s \<noteq> [])"
| "truthy (PyList vs) = (vs \<noteq> [])"
| "truthy (PyDict kvs) = (kvs \<noteq> [])"
| "truthy (PyOther b) = b"

text \<open>\<open>d.get(k, default)\<close> on a dict; \<open>d.get(k)\<close> has the default \<open>None\<close>.\<close>

definition dict_get :: "(pyval \<times> pyval) list \<Rightarrow> pyval \<Rightarrow> pyval \<Rightarrow> pyval" where
  "dict_get kvs k dflt = (case map_of kvs k of None \<Rightarrow> dflt | Some v \<Rightarrow> v)"

section \<open>Normalisation: \<open>coerce_list\<close>\<close>

text \<open>The expression \<open>v.strip().lower()\<close> that \<open>coerce_list\<close> applies to every str.\<close>

definition normalize :: "string \<Rightarrow> string" where
  "normalize v = lower (strip v)"

text \<open>
  The loop over a list value: a str element is normalised and appended when the
  result is not empty; any other element is passed over.
\<close>

fun coerce_items :: "pyval list \<Rightarrow> string list" where
  "coerce_items [] = []"
| "coerce_items (PyStr v # vs) =
     (let s = normalize v in if s \<noteq> [] then s # coerce_items vs else coerce_items vs)"
| "coerce_items (_ # vs) = coerce_items vs"

definition coerce_list :: "pyval \<Rightarrow> string list" where
  "coerce_list val =
     (if \<not> truthy val then []
      else case val of
          PyStr v \<Rightarrow> (let s = normalize v in if s \<noteq> [] then [s] else [])
        | PyList vs \<Rightarrow> coerce_items vs
        | _ \<Rightarrow> [])"

section \<open>Normalisation over all of Unicode\<close>

text \<open>
  The functions above work on \<open>string\<close>, whose characters stop at 255; that is the
  instance the rest of the development runs on. Python's \<open>str\<close> holds any code
  point, \<open>str.strip\<close> removes 29 kinds of whitespace, and \<open>str.lower\<close> follows the
  Unicode tables: it can lengthen a string and looks at the neighbours of a capital
  sigma. Here a string is a list of code points; the whitespace of
  \<open>str.isspace\<close> and \<open>str.strip\<close> is written out in full, and \<open>str.lower\<close>,
  whose tables are not part of the program, is a parameter \<open>low\<close> on whole
  strings.
\<close>

type_synonym codepoint = nat

definition unicode_isspace :: "codepoint \<Rightarrow> bool" where
  "unicode_isspace n =
     ((9 \<le> n \<and> n \<le> 13) \<or> (28 \<le> n \<and> n \<le> 32) \<or> n = 133 \<or> n = 160 \<or> n = 5760
      \<or> (8192 \<le> n \<and> n \<le> 8202) \<or> n = 8232 \<or> n = 8233 \<or> n = 8239 \<or> n = 8287
      \<or> n = 12288)"

text \<open>\<open>s.strip()\<close> for a given notion of whitespace.\<close>

definition strip_by :: "('c \<Rightarrow> bool) \<Rightarrow> 'c list \<Rightarrow> 'c list" where
  "strip_by sp s = rev (dropWhile sp (rev (dropWhile sp s)))"

text \<open>
  \<open>coerce_list\<close> and its loop once more, line by line as above, for any type of
  character and with the expression \<open>v.strip().lower()\<close> as the parameter
  \<open>norm\<close>.
\<close>

fun coerce_items_by :: "('c list \<Rightarrow> 'c list) \<Rightarrow> 'c pyvalue list \<Rightarrow> 'c list list" where
  "coerce_items_by norm [] = []"
| "coerce_items_by norm (PyStr v # vs) =
     (let s = norm v in if s \<noteq> [] then s # coerce_items_by norm vs
                        else coerce_items_by norm vs)"
| "coerce_items_by norm (_ # vs) = coerce_items_by norm vs"

definition coerce_list_by :: "('c list \<Rightarrow> 'c list) \<Rightarrow> 'c pyvalue \<Rightarrow> 'c list list" where
  "coerce_list_by norm val =
     (if \<not> truthy val then []
      else case val of
          PyStr v \<Rightarrow> (let s = norm v in if s \<noteq> [] then [s] else [])
        | PyList vs \<Rightarrow> coerce_items_by norm vs
        | _ \<Rightarrow> [])"

text \<open>\<open>v.strip().lower()\<close> and \<open>coerce_list\<close> on strings of code points.\<close>

definition normalize_u :: "(codepoint list \<Rightarrow> codepoint list) \<Rightarrow> codepoint list \<Rightarrow> codepoint list" where
  "normalize_u low v = low (strip_by unicode_isspace v)"

definition coerce_list_u ::
  "(codepoint list \<Rightarrow> codepoint list) \<Rightarrow> codepoint pyvalue \<Rightarrow> codepoint list list" where
  "coerce_list_u low val = coerce_list_by (normalize_u low) val"




definition codes :: "string \<Rightarrow> codepoint list" where
  "codes s = map of_char s"

text \<open>
  One function that has what the theorem on normalisation asks of \<open>str.lower\<close>. It
  maps code point by code point: the capitals of ASCII and Latin-1 and the capital
  sigma go to their small letters, the capital I with a dot (304) becomes the two
  code points 105 and 775, as in Python, and every other code point stays.
\<close>

definition sample_lower_cp :: "codepoint \<Rightarrow> codepoint list" where
  "sample_lower_cp n =
     (if (65 \<le> n \<and> n \<le> 90) \<or> (192 \<le> n \<and> n \<le> 222 \<and> n \<noteq> 215) then [n + 32]
      else if n = 304 then [105, 775]
      else if n = 931 then [963]
      else [n])"

definition sample_lower :: "codepoint list \<Rightarrow> codepoint list" where
  "sample_lower s = concat (map sample_lower_cp s)"

section \<open>The environment of a run\<close>

text \<open>
  The program reads files, walks a directory and calls two library functions. They
  are parameters of the model: \<open>readlines\<close> is \<open>open(path).readlines()\<close>
  (\<open>None\<close> when opening or decoding raises), \<open>safe_load\<close> is \<open>yaml.safe_load\<close>
  (\<open>None\<close> when it raises), \<open>walk\<close> is \<open>os.walk\<close>, giving each directory with the
  file names in it, and \<open>json_dumps\<close> is \<open>json.dumps(_, indent=2)\<close>.
\<close>

datatype json = JStr string | JList "json list" | JObj "(string \<times> json) list"

record env =
  readlines :: "string \<Rightarrow> string list option"
  safe_load :: "string \<Rightarrow> pyval option"
  walk :: "string \<Rightarrow> (string \<times> string list) list"
  json_dumps :: "json \<Rightarrow> string"

text \<open>
  The two warnings printed to the diagnostic stream, each with the path it is about
  (the text of the exception is left out).
\<close>

datatype warning = ErrorReading string | ErrorParsing string

text \<open>The one exception that the program does not catch.\<close>

datatype py_error = AttributeError

section \<open>Reading the front matter\<close>

text \<open>The loop of \<open>is_front_matter_yaml\<close> over the lines after the first.\<close>

fun scan_marker :: "string list \<Rightarrow> int \<Rightarrow> int \<times> int" where
  "scan_marker [] idx = (- 1, - 1)"
| "scan_marker (l # ls) idx =
     (if strip l = ''---'' then (0, idx) else scan_marker ls (idx + 1))"

definition is_front_matter_yaml :: "string list \<Rightarrow> int \<times> int" where
  "is_front_matter_yaml lines =
     (case lines of
        [] \<Rightarrow> (- 1, - 1)
      | l # ls \<Rightarrow> if strip l \<noteq> ''---'' then (- 1, - 1) else scan_marker ls 1)"

text \<open>\<open>xs[a:b]\<close> for indices that are not negative.\<close>

definition slice :: "'a list \<Rightarrow> int \<Rightarrow> int \<Rightarrow> 'a list" where
  "slice xs a b = drop (nat a) (take (nat b) xs)"

text \<open>
  \<open>read_front_matter\<close> returns \<open>None\<close> after a warning, the empty dict when the
  file has no front matter, and otherwise what the loader returned, with the
  empty dict in place of a falsy value (\<open>yaml.safe_load(frontmatter) or {}\<close>).
  The second component is what it printed to the diagnostic stream.
\<close>

definition read_front_matter :: "env \<Rightarrow> string \<Rightarrow> pyval option \<times> warning list" where
  "read_front_matter env path =
     (case readlines env path of
        None \<Rightarrow> (None, [ErrorReading path])
      | Some lines \<Rightarrow>
          (case is_front_matter_yaml lines of
             (s, e) \<Rightarrow>
               if s = - 1 then (Some (PyDict []), [])
               else (let frontmatter = concat (slice lines (s + 1) e)
                     in case safe_load env frontmatter of
                          None \<Rightarrow> (None, [ErrorParsing path])
                        | Some loaded \<Rightarrow>
                            (Some (if truthy loaded then loaded else PyDict []), []))))"

section \<open>Finding the files\<close>

definition endswith :: "string \<Rightarrow> string \<Rightarrow> bool" where
  "endswith s suf = (length suf \<le> length s \<and> drop (length s - length suf) s = suf)"

definition startswith :: "string \<Rightarrow> string \<Rightarrow> bool" where
  "startswith s pre = (take (length pre) s = pre)"

text \<open>\<open>os.path.join\<close> of two components, on POSIX.\<close>

definition path_join :: "string \<Rightarrow> string \<Rightarrow> string" where
  "path_join a b =
     (if startswith b ''/'' then b
      else if a = [] \<or> endswith a ''/'' then a @ b
      else a @ ''/'' @ b)"

definition iter_paths :: "env \<Rightarrow> string \<Rightarrow> string list \<Rightarrow> string list" where
  "iter_paths env content_dir exts =
     concat (map (\<lambda>(root, files).
                    map (path_join root)
                      (filter (\<lambda>filename. list_ex (endswith filename) exts) files))
                 (walk env content_dir))"

section \<open>Aggregation: \<open>collect\<close>\<close>

text \<open>
  A \<open>Counter\<close>, a \<open>defaultdict\<close> and a \<open>dict\<close> keep their keys in the order of first
  insertion; each is an association list, written with \<open>AList.update\<close> (replace
  the value of a key in place, or add the key at the end) and read with \<open>map_of\<close>.
\<close>

type_synonym counter = "(string \<times> int) list"
type_synonym inverse = "(string \<times> string list) list"
type_synonym usage = "(string \<times> string list \<times> string list) list"

text \<open>\<open>c[k]\<close> on a \<open>Counter\<close>: zero for a key that is not there.\<close>

definition counter_get :: "counter \<Rightarrow> string \<Rightarrow> int" where
  "counter_get c k = (case map_of c k of None \<Rightarrow> 0 | Some n \<Rightarrow> n)"

text \<open>\<open>c.update(elems)\<close>: one more for every element, in order.\<close>

definition counter_update :: "string list \<Rightarrow> counter \<Rightarrow> counter" where
  "counter_update elems c = fold (\<lambda>e c. AList.update e (counter_get c e + 1) c) elems c"

text \<open>\<open>m.get(k, [])\<close>, and \<open>m[k]\<close> on the \<open>defaultdict(list)\<close>.\<close>

definition mapping_get :: "inverse \<Rightarrow> string \<Rightarrow> string list" where
  "mapping_get m k = (case map_of m k of None \<Rightarrow> [] | Some fs \<Rightarrow> fs)"

text \<open>\<open>for t in names: m[t].append(path)\<close>.\<close>

definition append_path :: "string \<Rightarrow> string list \<Rightarrow> inverse \<Rightarrow> inverse" where
  "append_path path names m =
     fold (\<lambda>t m. AList.update t (mapping_get m t @ [path]) m) names m"

record run =
  tags_counter :: counter
  cats_counter :: counter
  file_usage :: usage
  tag_to_files :: inverse
  cat_to_files :: inverse
  stderr :: "warning list"

definition empty_run :: run where
  "empty_run = \<lparr>tags_counter = [], cats_counter = [], file_usage = [],
                 tag_to_files = [], cat_to_files = [], stderr = []\<rparr>"

text \<open>The body of the loop of \<open>collect\<close> once a file has passed every test.\<close>

definition record_file :: "string \<Rightarrow> (pyval \<times> pyval) list \<Rightarrow> run \<Rightarrow> run" where
  "record_file path kvs st =
     (let tags = coerce_list (dict_get kvs (PyStr ''tags'') PyNone);
          cats = coerce_list (dict_get kvs (PyStr ''categories'') PyNone)
      in st\<lparr>tags_counter := counter_update tags (tags_counter st),
             cats_counter := counter_update cats (cats_counter st),
             file_usage := AList.update path (tags, cats) (file_usage st),
             tag_to_files := append_path path tags (tag_to_files st),
             cat_to_files := append_path path cats (cat_to_files st)\<rparr>)"

text \<open>
  The loop of \<open>collect\<close>. A value that is not a dict has no \<open>get\<close>: the call
  \<open>data.get\<close> raises \<open>AttributeError\<close>, which nothing catches.
\<close>

fun collect_loop :: "env \<Rightarrow> bool \<Rightarrow> run \<Rightarrow> string list \<Rightarrow> py_error + run" where
  "collect_loop env ignore_drafts st [] = Inr st"
| "collect_loop env ignore_drafts st (path # paths) =
     (case read_front_matter env path of
        (None, ws) \<Rightarrow> collect_loop env ignore_drafts (st\<lparr>stderr := stderr st @ ws\<rparr>) paths
      | (Some data, ws) \<Rightarrow>
          (let st = st\<lparr>stderr := stderr st @ ws\<rparr>
           in if data = PyDict [] then collect_loop env ignore_drafts st paths
              else case data of
                  PyDict kvs \<Rightarrow>
                    if ignore_drafts \<and> truthy (dict_get kvs (PyStr ''draft'') (PyBool False))
                    then collect_loop env ignore_drafts st paths
                    else collect_loop env ignore_drafts (record_file path kvs st) paths
                | _ \<Rightarrow> Inl AttributeError))"

text \<open>The files that \<open>collect\<close> visits: its variable \<open>paths\<close>.\<close>

definition scan_paths :: "env \<Rightarrow> string \<Rightarrow> string list \<Rightarrow> string list option \<Rightarrow> string list" where
  "scan_paths env content_dir exts file_paths =
     (case file_paths of
        None \<Rightarrow> iter_paths env content_dir exts
      | Some ps \<Rightarrow> if ps \<noteq> [] then ps else iter_paths env content_dir exts)"

definition collect ::
  "env \<Rightarrow> string \<Rightarrow> string list \<Rightarrow> bool \<Rightarrow> string list option \<Rightarrow> py_error + run" where
  "collect env content_dir exts ignore_drafts file_paths =
     collect_loop env ignore_drafts empty_run (scan_paths env content_dir exts file_paths)"

section \<open>Filtering and sorting: \<open>sort_and_filter\<close>\<close>

text \<open>
  \<open>list.sort(key=f)\<close> is stable, as \<open>sort_key f\<close> is. The key of the count mode is
  the pair \<open>(-count, name)\<close>, compared lexicographically.
\<close>

definition sort_and_filter :: "counter \<Rightarrow> string \<Rightarrow> int \<Rightarrow> int \<Rightarrow> (string \<times> int) list" where
  "sort_and_filter counter mode min_count top_n =
     (let items = filter (\<lambda>(k, v). v \<ge> min_count) counter;
          items = (if mode = ''alpha'' then sort_key (\<lambda>kv. fst kv) items
                   else sort_key (\<lambda>kv. (- snd kv, fst kv)) items)
      in if top_n > 0 then take (nat top_n) items else items)"

section \<open>Rendering\<close>

definition nl :: string where
  "nl = [CHR 0x0A]"

definition dquote :: string where
  "dquote = [CHR 0x22]"

definition backtick :: string where
  "backtick = [CHR 0x60]"

text \<open>
  \<open>print_per_file\<close>: the three lines printed for every file of the usage record,
  the files in sorted order. The banner before them and the rule after them are
  fixed text and are left out.
\<close>

definition print_per_file :: "usage \<Rightarrow> string list" where
  "print_per_file fu =
     concat (map (\<lambda>fname.
        (case map_of fu fname of
           None \<Rightarrow> []
         | Some (tags, cats) \<Rightarrow>
             [fname @ '':'',
              ''    tags: '' @ (if tags \<noteq> [] then join '', '' tags else ''(none)''),
              ''    categories: '' @ (if cats \<noteq> [] then join '', '' cats else ''(none)'')]))
        (sort (map fst fu)))"

text \<open>
  The renderers of an inverse mapping. Each appends to \<open>out\<close> for every key of
  \<open>ordered_keys\<close> in turn; the function named \<open>_key\<close> is the body of that loop.
\<close>

definition text_key :: "inverse \<Rightarrow> string \<Rightarrow> string list \<Rightarrow> string list" where
  "text_key mapping key out =
     fold (\<lambda>path out. out @ [''  '' @ path]) (sort (mapping_get mapping key))
       (out @ [nl @ key, replicate (length key) CHR ''-''])"

definition render_mapping_text :: "string \<Rightarrow> string list \<Rightarrow> inverse \<Rightarrow> string" where
  "render_mapping_text header ordered_keys mapping =
     (let out = [header, replicate (length header) CHR ''='']
      in if ordered_keys = [] then join nl (out @ [''(none)'']) @ nl
         else join nl (fold (text_key mapping) ordered_keys out @ [[]]))"

definition markdown_key :: "inverse \<Rightarrow> string \<Rightarrow> string list \<Rightarrow> string list" where
  "markdown_key mapping key out =
     fold (\<lambda>path out. out @ [''- '' @ backtick @ path @ backtick])
       (sort (mapping_get mapping key)) (out @ [''#### '' @ key])
     @ [[]]"

definition render_mapping_markdown :: "string \<Rightarrow> string list \<Rightarrow> inverse \<Rightarrow> string" where
  "render_mapping_markdown header ordered_keys mapping =
     (let out = [''### '' @ header, []]
      in if ordered_keys = [] then join nl (out @ [''*(none)*'', []])
         else join nl (fold (markdown_key mapping) ordered_keys out))"

definition csv_key :: "inverse \<Rightarrow> string \<Rightarrow> string list \<Rightarrow> string list" where
  "csv_key mapping key out =
     (let files = sort (mapping_get mapping key)
      in if files = [] then out @ [dquote @ key @ dquote @ '','']
         else fold (\<lambda>path out. out @ [dquote @ key @ dquote @ '','' @ dquote @ path @ dquote])
                files out)"

definition render_mapping_csv :: "string list \<Rightarrow> inverse \<Rightarrow> string" where
  "render_mapping_csv ordered_keys mapping =
     join nl (fold (csv_key mapping) ordered_keys [''name,file'']) @ nl"

text \<open>
  The payload of \<open>render_mapping_json\<close>: a dict comprehension over
  \<open>ordered_keys\<close>, so a key that comes twice is stored once.
\<close>

definition mapping_payload :: "string list \<Rightarrow> inverse \<Rightarrow> string \<Rightarrow> json" where
  "mapping_payload ordered_keys mapping header_key =
     JObj [(header_key,
            JObj (fold (\<lambda>k d. AList.update k (JList (map JStr (sort (mapping_get mapping k)))) d)
                    ordered_keys []))]"

definition render_mapping_json :: "env \<Rightarrow> string list \<Rightarrow> inverse \<Rightarrow> string \<Rightarrow> string" where
  "render_mapping_json env ordered_keys mapping header_key =
     json_dumps env (mapping_payload ordered_keys mapping header_key)"

section \<open>The report driver: \<open>main\<close>\<close>

record args =
  arg_dir :: string
  arg_file :: "string option"
  arg_ext :: string
  arg_ignore_drafts :: bool
  arg_per_file :: bool
  arg_summary :: bool
  arg_singletons :: bool
  arg_by_tag :: bool
  arg_by_cat :: bool
  arg_format :: string
  arg_sort :: string
  arg_min_count :: int
  arg_top :: int

text \<open>\<open>s.split(sep)\<close> for a separator of one character.\<close>

fun split_on :: "char \<Rightarrow> string \<Rightarrow> string list" where
  "split_on sep [] = [[]]"
| "split_on sep (c # cs) =
     (if c = sep then [] # split_on sep cs
      else case split_on sep cs of
             [] \<Rightarrow> [[c]]
           | p # ps \<Rightarrow> (c # p) # ps)"

text \<open>
  The rows of the singleton section, as \<open>main\<close> computes them from an inverse
  mapping: the names whose list of files has length one, each with the count 1,
  sorted by name.
\<close>

definition singleton_rows :: "inverse \<Rightarrow> (string \<times> int) list" where
  "singleton_rows m =
     sort_key (\<lambda>kv. fst kv)
       (map (\<lambda>(t, files). (t, 1)) (filter (\<lambda>(t, files). length files = 1) m))"

text \<open>The local function \<open>ordered_keys_from\<close> of \<open>main\<close>.\<close>

definition ordered_keys_from :: "args \<Rightarrow> counter \<Rightarrow> string list" where
  "ordered_keys_from a counter =
     map fst (sort_and_filter counter (arg_sort a) (arg_min_count a) (arg_top a))"

text \<open>
  What \<open>main\<close> writes for a mapping view, given the header, the label of the CSV
  and JSON forms, the keys and the inverse mapping. \<open>print\<close> ends its text with a
  newline unless \<open>end\<close> says otherwise.
\<close>

definition mapping_view ::
  "env \<Rightarrow> string \<Rightarrow> string \<Rightarrow> string \<Rightarrow> string list \<Rightarrow> inverse \<Rightarrow> string" where
  "mapping_view env fmt header label ordered mapping =
     (if fmt = ''markdown'' then render_mapping_markdown header ordered mapping @ nl
      else if fmt = ''csv'' then ''# '' @ label @ nl @ render_mapping_csv ordered mapping
      else if fmt = ''json'' then render_mapping_json env ordered mapping label @ nl
      else render_mapping_text header ordered mapping)"

text \<open>
  A report holds, for every section in the order of \<open>main\<close>, what the section was
  given or wrote, and \<open>None\<close> when the section is switched off: the lines of the
  per-file listing, the rows handed to the table renderer for the totals and for
  the singletons (tags, then categories), and the text of the two mapping views.
\<close>

record report =
  per_file_view :: "string list option"
  summary_view :: "((string \<times> int) list \<times> (string \<times> int) list) option"
  singletons_view :: "((string \<times> int) list \<times> (string \<times> int) list) option"
  by_tag_view :: "string option"
  by_cat_view :: "string option"

text \<open>The first statements of \<open>main\<close>, up to the call of \<open>collect\<close>.\<close>

definition main_exts :: "args \<Rightarrow> string list" where
  "main_exts a =
     (let raw_exts = filter (\<lambda>x. x \<noteq> []) (map strip (split_on CHR '','' (arg_ext a)))
      in map (\<lambda>e. if startswith e ''.'' then e else ''.'' @ e) raw_exts)"

definition main_file_paths :: "args \<Rightarrow> string list option" where
  "main_file_paths a =
     (case arg_file a of
        None \<Rightarrow> None
      | Some f \<Rightarrow> if f \<noteq> [] then Some [f] else None)"

definition main_collect :: "env \<Rightarrow> args \<Rightarrow> py_error + run" where
  "main_collect env a =
     collect env (arg_dir a) (main_exts a) (arg_ignore_drafts a) (main_file_paths a)"

definition main :: "env \<Rightarrow> args \<Rightarrow> py_error + report" where
  "main env a =
     (case main_collect env a of
           Inl err \<Rightarrow> Inl err
         | Inr st \<Rightarrow>
             Inr \<lparr>per_file_view =
                    (if arg_per_file a then Some (print_per_file (file_usage st)) else None),
                  summary_view =
                    (if arg_summary a
                     then Some (sort_and_filter (tags_counter st)
                                  (arg_sort a) (arg_min_count a) (arg_top a),
                                sort_and_filter (cats_counter st)
                                  (arg_sort a) (arg_min_count a) (arg_top a))
                     else None),
                  singletons_view =
                    (if arg_singletons a
                     then Some (singleton_rows (tag_to_files st),
                                singleton_rows (cat_to_files st))
                     else None),
                  by_tag_view =
                    (if arg_by_tag a
                     then Some (mapping_view env (arg_format a) ''Files by Tag'' ''files_by_tag''
                                  (ordered_keys_from a (tags_counter st)) (tag_to_files st))
                     else None),
                  by_cat_view =
                    (if arg_by_cat a
                     then Some (mapping_view env (arg_format a)
                                  ''Files by Category'' ''files_by_category''
                                  (ordered_keys_from a (cats_counter st)) (cat_to_files st))
                     else None)\<rparr>)"

section \<open>The files that count\<close>

text \<open>
  The aggregation is described by the files that count: those that were read, whose
  front matter is a dict that is not empty, and that the ignore-drafts option does
  not exclude. \<open>contributes\<close> gives the normalised tag list and category list
  of such a file, and \<open>None\<close> for every other file.
\<close>

definition contributes :: "env \<Rightarrow> bool \<Rightarrow> string \<Rightarrow> (string list \<times> string list) option" where
  "contributes env ignore_drafts path =
     (case fst (read_front_matter env path) of
        Some (PyDict kvs) \<Rightarrow>
          if kvs = [] \<or> (ignore_drafts \<and> truthy (dict_get kvs (PyStr ''draft'') (PyBool False)))
          then None
          else Some (coerce_list (dict_get kvs (PyStr ''tags'') PyNone),
                     coerce_list (dict_get kvs (PyStr ''categories'') PyNone))
      | _ \<Rightarrow> None)"

definition file_tags :: "env \<Rightarrow> bool \<Rightarrow> string \<Rightarrow> string list" where
  "file_tags env ignore_drafts path =
     (case contributes env ignore_drafts path of None \<Rightarrow> [] | Some (tags, cats) \<Rightarrow> tags)"

definition file_cats :: "env \<Rightarrow> bool \<Rightarrow> string \<Rightarrow> string list" where
  "file_cats env ignore_drafts path =
     (case contributes env ignore_drafts path of None \<Rightarrow> [] | Some (tags, cats) \<Rightarrow> cats)"

section \<open>The reports, as the specification words them\<close>

text \<open>
  The content items that use a tag, and those that use a category: the files
  whose usage record has the name in its list.
\<close>

definition tag_users :: "string \<Rightarrow> usage \<Rightarrow> string list" where
  "tag_users name fu = map fst (filter (\<lambda>(p, tags, cats). name \<in> set tags) fu)"

definition cat_users :: "string \<Rightarrow> usage \<Rightarrow> string list" where
  "cat_users name fu = map fst (filter (\<lambda>(p, tags, cats). name \<in> set cats) fu)"

text \<open>
  A mapping view written key by key: for every key of the given sequence, in that
  order, the lines of the key, namely its heading (in the CSV form, nothing) and
  its files in sorted order. \<open>view_by_keys\<close> puts the lines of all keys between the
  fixed first and last lines of each format.
\<close>

definition text_block :: "inverse \<Rightarrow> string \<Rightarrow> string list" where
  "text_block m k =
     [nl @ k, replicate (length k) CHR ''-''] @ map (\<lambda>p. ''  '' @ p) (sort (mapping_get m k))"

definition markdown_block :: "inverse \<Rightarrow> string \<Rightarrow> string list" where
  "markdown_block m k =
     [''#### '' @ k] @ map (\<lambda>p. ''- '' @ backtick @ p @ backtick) (sort (mapping_get m k)) @ [[]]"

definition csv_block :: "inverse \<Rightarrow> string \<Rightarrow> string list" where
  "csv_block m k =
     (if mapping_get m k = [] then [dquote @ k @ dquote @ '','']
      else map (\<lambda>p. dquote @ k @ dquote @ '','' @ dquote @ p @ dquote) (sort (mapping_get m k)))"

definition json_entry :: "inverse \<Rightarrow> string \<Rightarrow> string \<times> json" where
  "json_entry m k = (k, JList (map JStr (sort (mapping_get m k))))"

definition view_by_keys ::
  "env \<Rightarrow> string \<Rightarrow> string \<Rightarrow> string \<Rightarrow> string list \<Rightarrow> inverse \<Rightarrow> string" where
  "view_by_keys env fmt header label keys m =
     (if fmt = ''markdown''
      then (if keys = [] then join nl [''### '' @ header, [], ''*(none)*'', []]
            else join nl ([''### '' @ header, []] @ concat (map (markdown_block m) keys))) @ nl
      else if fmt = ''csv''
      then ''# '' @ label @ nl @ join nl (''name,file'' # concat (map (csv_block m) keys)) @ nl
      else if fmt = ''json''
      then json_dumps env (JObj [(label, JObj (map (json_entry m) keys))]) @ nl
      else (if keys = [] then join nl [header, replicate (length header) CHR ''='', ''(none)''] @ nl
            else join nl ([header, replicate (length header) CHR ''='']
                          @ concat (map (text_block m) keys) @ [[]])))"

section \<open>Example runs\<close>

text \<open>
  A content directory with one post and one file of another extension. The post
  has the header \<open>tags: [Go, go, Rust]\<close>, \<open>categories: backend\<close>; the loader is
  given on the one text it is asked to parse.
\<close>

definition example_env :: env where
  "example_env =
     \<lparr>readlines = map_of
        [(''content/post.md'',
          [''---'' @ nl, ''tags: [Go, go, Rust]'' @ nl, ''categories: backend'' @ nl,
           ''---'' @ nl, ''Hello'' @ nl])],
      safe_load = map_of
        [(''tags: [Go, go, Rust]'' @ nl @ ''categories: backend'' @ nl,
          PyDict [(PyStr ''tags'', PyList [PyStr ''Go'', PyStr ''go'', PyStr ''Rust'']),
                  (PyStr ''categories'', PyStr ''backend'')])],
      walk = (\<lambda>d. if d = ''content'' then [(''content'', [''post.md'', ''notes.txt''])] else []),
      json_dumps = (\<lambda>j. [])\<rparr>"

text \<open>
  A directory of seven files: \<open>a.md\<close> with tags zeta and alpha and the category
  news, \<open>b.md\<close> a draft with the tag alpha, \<open>c.md\<close> that cannot be read, \<open>d.md\<close>
  whose front matter does not parse, \<open>e.md\<close> with an empty block between the
  markers, \<open>f.md\<close> without front matter, and \<open>g.md\<close> with the tag alpha.
\<close>

definition blog_env :: env where
  "blog_env =
     \<lparr>readlines = map_of
        [(''blog/a.md'', [''---'' @ nl, ''tags: [zeta, alpha]'' @ nl, ''categories: news'' @ nl,
                          ''---'' @ nl]),
         (''blog/b.md'', [''---'' @ nl, ''tags: alpha'' @ nl, ''draft: true'' @ nl, ''---'' @ nl]),
         (''blog/d.md'', [''---'' @ nl, ''tags: [unclosed'' @ nl, ''---'' @ nl]),
         (''blog/e.md'', [''---'' @ nl, ''---'' @ nl, ''text'' @ nl]),
         (''blog/f.md'', [''# Title'' @ nl, ''text'' @ nl]),
         (''blog/g.md'', [''---'' @ nl, ''tags: Alpha'' @ nl, ''---'' @ nl])],
      safe_load = map_of
        [(''tags: [zeta, alpha]'' @ nl @ ''categories: news'' @ nl,
          PyDict [(PyStr ''tags'', PyList [PyStr ''zeta'', PyStr ''alpha'']),
                  (PyStr ''categories'', PyStr ''news'')]),
         (''tags: alpha'' @ nl @ ''draft: true'' @ nl,
          PyDict [(PyStr ''tags'', PyStr ''alpha''), (PyStr ''draft'', PyBool True)]),
         ([], PyNone),
         (''tags: Alpha'' @ nl, PyDict [(PyStr ''tags'', PyStr ''Alpha'')])],
      walk = (\<lambda>d. if d = ''blog''
                   then [(''blog'', [''a.md'', ''b.md'', ''c.md'', ''d.md'', ''e.md'', ''f.md'',
                                     ''g.md''])]
                   else []),
      json_dumps = (\<lambda>j. [])\<rparr>"

text \<open>
  A directory with one file whose front matter is the single line \<open>hello\<close>, which
  the loader returns as the str \<open>hello\<close>.
\<close>

definition scalar_env :: env where
  "scalar_env =
     \<lparr>readlines = map_of [(''notes/n.md'', [''---'' @ nl, ''hello'' @ nl, ''---'' @ nl])],
      safe_load = map_of [(''hello'' @ nl, PyStr ''hello'')],
      walk = (\<lambda>d. if d = ''notes'' then [(''notes'', [''n.md''])] else []),
      json_dumps = (\<lambda>j. [])\<rparr>"

text \<open>The default arguments of the command line.\<close>

definition default_args :: args where
  "default_args =
     \<lparr>arg_dir = ''./content'', arg_file = None, arg_ext = ''.md'',
      arg_ignore_drafts = False, arg_per_file = False, arg_summary = True,
      arg_singletons = True, arg_by_tag = False, arg_by_cat = False,
      arg_format = ''text'', arg_sort = ''count'', arg_min_count = 0, arg_top = 0\<rparr>"

section \<open>Facts about strings and normalisation\<close>

lemma of_char_lt: "(of_char c :: nat) < 256"
  by (cases c) (simp add: of_char_def horner_sum_eq_sum)

lemma lower_char_idem: "lower_char (lower_char c) = lower_char c"
proof -
  have "(of_char c :: nat) < 256" by (rule of_char_lt)
  then show ?thesis
    by (auto simp: lower_char_def Let_def)
qed

lemma isspace_lower_char: "isspace (lower_char c) = isspace c"
proof -
  have "(of_char c :: nat) < 256" by (rule of_char_lt)
  then show ?thesis
    by (auto simp: lower_char_def isspace_def Let_def)
qed

lemma drop_end_Cons:
  "\<not> P x \<Longrightarrow> rev (dropWhile P (rev (x # ys))) = x # rev (dropWhile P (rev ys))"
  by (simp add: dropWhile_append3)

lemma strip_idem: "strip (strip s) = strip s"
proof (cases "dropWhile isspace s")
  case Nil
  have "strip s = []"
    unfolding strip_def Nil by simp
  then show ?thesis
    by (simp add: strip_def [of "[]"])
next
  case (Cons x ys)
  then have nx: "\<not> isspace x"
    using hd_dropWhile [of isspace s] by simp
  have s1: "strip s = x # rev (dropWhile isspace (rev ys))"
    unfolding strip_def Cons using nx by (rule drop_end_Cons [of isspace x ys])
  show ?thesis
    unfolding s1 by (simp add: strip_def nx dropWhile_append3)
qed

lemma strip_lower: "strip (lower s) = lower (strip s)"
proof -
  have c: "isspace \<circ> lower_char = isspace"
    by (rule ext) (simp add: isspace_lower_char)
  show ?thesis
    by (simp add: strip_def lower_def dropWhile_map rev_map c)
qed

lemma lower_idem: "lower (lower s) = lower s"
  by (simp add: lower_def lower_char_idem)

lemma normalize_idem: "normalize (normalize s) = normalize s"
  by (simp add: normalize_def strip_lower strip_idem lower_idem)

lemma coerce_items_normal:
  "s \<in> set (coerce_items vs) \<Longrightarrow> s \<noteq> [] \<and> normalize s = s"
  by (induction vs rule: coerce_items.induct)
     (auto simp: Let_def normalize_idem split: if_splits)

lemma coerce_list_normal:
  "s \<in> set (coerce_list v) \<Longrightarrow> s \<noteq> [] \<and> normalize s = s"
  by (cases v)
     (auto simp: coerce_list_def Let_def normalize_idem dest: coerce_items_normal
           split: if_splits)

lemma coerce_items_fixed:
  "\<forall>s\<in>set xs. s \<noteq> [] \<and> normalize s = s \<Longrightarrow> coerce_items (map PyStr xs) = xs"
  by (induction xs) (simp_all add: Let_def)

lemma coerce_list_fixed:
  "\<forall>s\<in>set xs. s \<noteq> [] \<and> normalize s = s \<Longrightarrow> coerce_list (PyList (map PyStr xs)) = xs"
  by (cases xs) (simp_all add: coerce_list_def coerce_items_fixed Let_def)

lemma coerce_items_eq:
  "coerce_items vs =
     filter (\<lambda>s. s \<noteq> [])
       (map normalize (concat (map (\<lambda>v. case v of PyStr s \<Rightarrow> [s] | _ \<Rightarrow> []) vs)))"
  by (induction vs rule: coerce_items.induct) (simp_all add: Let_def)

text \<open>On \<open>string\<close>, \<open>coerce_list\<close> returns a list that it maps to itself.\<close>

lemma coerce_list_string_fixed:
  "coerce_list (PyList (map PyStr (coerce_list v))) = coerce_list v"
  by (rule coerce_list_fixed) (auto dest: coerce_list_normal)

section \<open>Normalisation is idempotent and ignores case\<close>






lemma coerce_list_by_str:
  "s \<noteq> [] \<Longrightarrow> coerce_list_by norm (PyStr s) = (if norm s = [] then [] else [norm s])"
  by (simp add: coerce_list_by_def Let_def)

text \<open>The functions on \<open>string\<close> are the instance at \<open>normalize\<close>.\<close>

lemma coerce_items_by_normalize: "coerce_items_by normalize vs = coerce_items vs"
  by (induction vs rule: coerce_items.induct) (simp_all add: Let_def)

lemma coerce_list_by_normalize: "coerce_list_by normalize v = coerce_list v"
  by (cases v) (simp_all add: coerce_list_by_def coerce_list_def coerce_items_by_normalize)

lemma normalize_is_strip_by: "normalize s = lower (strip_by isspace s)"
  by (simp add: normalize_def strip_def strip_by_def)



















text \<open>
  The functions on \<open>string\<close> are the functions on code points, cut down to the
  code points below 256, with \<open>sample_lower\<close> for \<open>str.lower\<close>.
\<close>

lemma unicode_isspace_small: "n < 256 \<Longrightarrow>
    unicode_isspace n = ((9 \<le> n \<and> n \<le> 13) \<or> (28 \<le> n \<and> n \<le> 32) \<or> n = 133 \<or> n = 160)"
  unfolding unicode_isspace_def by arith

lemma unicode_isspace_of_char: "unicode_isspace (of_char c) = isspace c"
  using unicode_isspace_small [OF of_char_lt [of c]] by (simp add: isspace_def Let_def)

lemma sample_lower_cp_byte: "n < 256 \<Longrightarrow>
    sample_lower_cp n =
      [if (65 \<le> n \<and> n \<le> 90) \<or> (192 \<le> n \<and> n \<le> 222 \<and> n \<noteq> 215) then n + 32 else n]"
  unfolding sample_lower_cp_def by simp

lemma of_char_lower_char:
  "(of_char (lower_char c) :: nat) =
     (if (65 \<le> (of_char c :: nat) \<and> (of_char c :: nat) \<le> 90)
         \<or> (192 \<le> (of_char c :: nat) \<and> (of_char c :: nat) \<le> 222 \<and> (of_char c :: nat) \<noteq> 215)
      then of_char c + 32 else of_char c)"
proof (cases "(65 \<le> (of_char c :: nat) \<and> (of_char c :: nat) \<le> 90)
                \<or> (192 \<le> (of_char c :: nat) \<and> (of_char c :: nat) \<le> 222 \<and> (of_char c :: nat) \<noteq> 215)")
  case True
  then have "(of_char c :: nat) + 32 < 256" by arith
  then have e: "(of_char (char_of ((of_char c :: nat) + 32)) :: nat) = of_char c + 32"
    by simp
  have "lower_char c = char_of ((of_char c :: nat) + 32)"
    unfolding lower_char_def Let_def using True by (rule if_P)
  then show ?thesis
    using True e by (simp only: if_True)
next
  case False
  have "lower_char c = c"
    unfolding lower_char_def Let_def using False by (rule if_not_P)
  then show ?thesis
    using False by (simp only: if_False)
qed

lemma sample_lower_cp_of_char: "sample_lower_cp (of_char c) = [of_char (lower_char c)]"
  using sample_lower_cp_byte [OF of_char_lt [of c]] of_char_lower_char [of c] by simp

lemma sample_lower_codes: "sample_lower (codes s) = codes (lower s)"
  by (induction s) (simp_all add: sample_lower_def codes_def lower_def sample_lower_cp_of_char)

lemma strip_by_codes: "strip_by unicode_isspace (codes s) = codes (strip s)"
proof -
  have c: "unicode_isspace \<circ> of_char = isspace"
    by (rule ext) (simp add: unicode_isspace_of_char)
  show ?thesis
    by (simp add: strip_by_def strip_def codes_def dropWhile_map rev_map c)
qed

lemma normalize_u_codes: "normalize_u sample_lower (codes s) = codes (normalize s)"
  by (simp add: normalize_u_def normalize_def strip_by_codes sample_lower_codes)

lemma codes_eq_Nil: "codes s = [] \<longleftrightarrow> s = []"
  by (simp add: codes_def)

lemma truthy_map: "truthy (map_pyvalue f v) = truthy v"
  by (cases v) simp_all

lemma coerce_items_codes:
  "coerce_items_by (normalize_u sample_lower) (map (map_pyvalue of_char) vs)
     = map codes (coerce_items vs)"
proof (induction vs)
  case Nil
  show ?case by simp
next
  case (Cons a vs)
  show ?case
  proof (cases a)
    case (PyStr x)
    have "normalize_u sample_lower (map of_char x) = codes (normalize x)"
      using normalize_u_codes [of x] by (simp add: codes_def)
    then show ?thesis
      using PyStr Cons.IH by (simp add: Let_def codes_eq_Nil)
  qed (simp_all add: Cons.IH)
qed

lemma coerce_list_codes:
  "coerce_list_u sample_lower (map_pyvalue of_char v) = map codes (coerce_list v)"
proof (cases v)
  case (PyStr x)
  have "normalize_u sample_lower (map of_char x) = codes (normalize x)"
    using normalize_u_codes [of x] by (simp add: codes_def)
  then show ?thesis
    using PyStr by (simp add: coerce_list_u_def coerce_list_by_def coerce_list_def Let_def
                      codes_eq_Nil)
next
  case (PyList vs)
  then show ?thesis
    using coerce_items_codes [of vs]
    by (simp add: coerce_list_u_def coerce_list_by_def coerce_list_def)
qed (simp_all add: coerce_list_u_def coerce_list_by_def coerce_list_def)




text \<open>
  C10. A list field is normalised element by element: every element that is not a
  str is dropped on its own and the str elements are kept (normalised, the empty
  ones left out), so a mixed list does not collapse to the empty list. A field
  whose value is neither a str nor a list (\<open>None\<close>, a bool, an int, a dict, any
  other object) gives the empty list.
\<close>

theorem coerce_list_mixed:
  "coerce_list (PyList vs) =
     filter (\<lambda>s. s \<noteq> [])
       (map normalize (concat (map (\<lambda>v. case v of PyStr s \<Rightarrow> [s] | _ \<Rightarrow> []) vs)))
   \<and> coerce_list (PyList [PyStr ''Go'', PyInt 3, PyNone, PyStr '' Rust '', PyList [PyStr ''x'']])
       = [''go'', ''rust'']
   \<and> coerce_list PyNone = [] \<and> coerce_list (PyBool b) = [] \<and> coerce_list (PyInt i) = []
   \<and> coerce_list (PyDict kvs) = [] \<and> coerce_list (PyOther b) = []"
proof -
  have a: "coerce_list (PyList vs) = coerce_items vs"
    by (cases vs) (simp_all add: coerce_list_def)
  have b: "coerce_list (PyList [PyStr ''Go'', PyInt 3, PyNone, PyStr '' Rust '', PyList [PyStr ''x'']])
       = [''go'', ''rust'']"
    by code_simp
  show ?thesis
    unfolding a using coerce_items_eq [of vs] b by (simp add: coerce_list_def)
qed

theorem coerce_list_mixed_witness:
  "coerce_list (PyList [PyInt 1, PyStr ''A'', PyBool True]) = [''a'']
   \<and> coerce_list (PyInt 42) = []"
proof -
  have m: "coerce_list (PyList [PyInt 1, PyStr ''A'', PyBool True]) = [''a'']"
    by code_simp
  show ?thesis
    using coerce_list_mixed [of "[PyInt 1, PyStr ''A'', PyBool True]" True 42 "[]"] m
    by blast
qed

section \<open>Facts about counters and the loop of \<open>collect\<close>\<close>

lemma counter_get_update:
  "counter_get (AList.update k v c) k' = (if k' = k then v else counter_get c k')"
  by (simp add: counter_get_def update_conv')

lemma counter_update_Cons:
  "counter_update (x # xs) c = counter_update xs (AList.update x (counter_get c x + 1) c)"
  by (simp add: counter_update_def)

lemma counter_update_Nil: "counter_update [] c = c"
  by (simp add: counter_update_def)

lemma counter_update_append:
  "counter_update (xs @ ys) c = counter_update ys (counter_update xs c)"
  by (simp add: counter_update_def)

lemma counter_get_counter_update:
  "counter_get (counter_update xs c) k = counter_get c k + int (count_list xs k)"
  by (induction xs arbitrary: c)
     (simp_all add: counter_update_Nil counter_update_Cons counter_get_update)

lemma keys_counter_update:
  "fst ` set (counter_update xs c) = fst ` set c \<union> set xs"
  by (induction xs arbitrary: c)
     (auto simp: counter_update_Nil counter_update_Cons dom_update)

lemma map_of_counter:
  "map_of c k = (if k \<in> fst ` set c then Some (counter_get c k) else None)"
  by (auto simp: counter_get_def map_of_eq_None_iff split: option.splits)

lemma count_list_concat:
  "int (count_list (concat xss) k) = sum_list (map (\<lambda>xs. int (count_list xs k)) xss)"
proof (induction xss)
  case Nil
  show ?case by simp
next
  case (Cons xs xss)
  have "int (count_list (concat (xs # xss)) k)
      = int (count_list xs k) + int (count_list (concat xss) k)"
    by simp
  also have "\<dots> = int (count_list xs k) + sum_list (map (\<lambda>xs. int (count_list xs k)) xss)"
    by (simp only: Cons.IH)
  finally show ?case by simp
qed

lemma map_of_counter_update_empty:
  "map_of (counter_update xs []) k =
     (if count_list xs k = 0 then None else Some (int (count_list xs k)))"
proof -
  have z: "counter_get [] k = 0"
    by (simp add: counter_get_def)
  show ?thesis
    unfolding map_of_counter [of "counter_update xs []" k]
    by (simp add: keys_counter_update counter_get_counter_update z count_list_0_iff)
qed

lemma collect_loop_failed:
  "read_front_matter env p = (None, ws) \<Longrightarrow>
   collect_loop env ig st (p # ps) = collect_loop env ig (st\<lparr>stderr := stderr st @ ws\<rparr>) ps"
  by simp

lemma collect_loop_empty:
  "read_front_matter env p = (Some (PyDict []), ws) \<Longrightarrow>
   collect_loop env ig st (p # ps) = collect_loop env ig (st\<lparr>stderr := stderr st @ ws\<rparr>) ps"
  by (simp add: Let_def)

lemma collect_loop_draft:
  "read_front_matter env p = (Some (PyDict kvs), ws) \<Longrightarrow>
   ig \<Longrightarrow> truthy (dict_get kvs (PyStr ''draft'') (PyBool False)) \<Longrightarrow>
   collect_loop env ig st (p # ps) = collect_loop env ig (st\<lparr>stderr := stderr st @ ws\<rparr>) ps"
  by (simp add: Let_def)

lemma collect_loop_record:
  "read_front_matter env p = (Some (PyDict kvs), ws) \<Longrightarrow> kvs \<noteq> [] \<Longrightarrow>
   \<not> (ig \<and> truthy (dict_get kvs (PyStr ''draft'') (PyBool False))) \<Longrightarrow>
   collect_loop env ig st (p # ps) =
     collect_loop env ig (record_file p kvs (st\<lparr>stderr := stderr st @ ws\<rparr>)) ps"
  by (cases ig) (simp_all add: Let_def)

lemma collect_loop_raise:
  "read_front_matter env p = (Some d, ws) \<Longrightarrow> \<forall>kvs. d \<noteq> PyDict kvs \<Longrightarrow>
   collect_loop env ig st (p # ps) = Inl AttributeError"
  by (cases d) (simp_all add: Let_def)

lemma contributes_failed:
  "read_front_matter env p = (None, ws) \<Longrightarrow> contributes env ig p = None"
  by (simp add: contributes_def)

lemma contributes_skipped:
  "read_front_matter env p = (Some (PyDict kvs), ws) \<Longrightarrow>
   kvs = [] \<or> (ig \<and> truthy (dict_get kvs (PyStr ''draft'') (PyBool False))) \<Longrightarrow>
   contributes env ig p = None"
  by (simp add: contributes_def)

lemma contributes_counted:
  "read_front_matter env p = (Some (PyDict kvs), ws) \<Longrightarrow> kvs \<noteq> [] \<Longrightarrow>
   \<not> (ig \<and> truthy (dict_get kvs (PyStr ''draft'') (PyBool False))) \<Longrightarrow>
   contributes env ig p =
     Some (coerce_list (dict_get kvs (PyStr ''tags'') PyNone),
           coerce_list (dict_get kvs (PyStr ''categories'') PyNone))"
  by (simp add: contributes_def)

lemma append_path_Nil: "append_path p [] m = m"
  by (simp add: append_path_def)

lemma collect_loop_step:
  assumes "collect_loop env ig st (p # ps) = Inr st'"
  shows "\<exists>st1. collect_loop env ig st1 ps = Inr st'
     \<and> tags_counter st1 = counter_update (file_tags env ig p) (tags_counter st)
     \<and> cats_counter st1 = counter_update (file_cats env ig p) (cats_counter st)
     \<and> tag_to_files st1 = append_path p (file_tags env ig p) (tag_to_files st)
     \<and> cat_to_files st1 = append_path p (file_cats env ig p) (cat_to_files st)
     \<and> file_usage st1 =
         (case contributes env ig p of None \<Rightarrow> file_usage st
          | Some tc \<Rightarrow> AList.update p tc (file_usage st))"
proof (cases "read_front_matter env p")
  case (Pair d ws)
  let ?st0 = "st\<lparr>stderr := stderr st @ ws\<rparr>"
  have skip: ?thesis
    if c: "contributes env ig p = None"
      and l: "collect_loop env ig st (p # ps) = collect_loop env ig ?st0 ps"
  proof (rule exI [of _ ?st0], intro conjI)
    show "collect_loop env ig ?st0 ps = Inr st'" using assms l by simp
  qed (simp_all add: file_tags_def file_cats_def c counter_update_Nil append_path_Nil)
  show ?thesis
  proof (cases d)
    case None
    then have r: "read_front_matter env p = (None, ws)" using Pair by simp
    show ?thesis
      by (rule skip [OF contributes_failed [OF r] collect_loop_failed [OF r]])
  next
    case (Some data)
    show ?thesis
    proof (cases "\<exists>kvs. data = PyDict kvs")
      case False
      have "read_front_matter env p = (Some data, ws)" using Pair Some by simp
      then have "collect_loop env ig st (p # ps) = Inl AttributeError"
        using False by (intro collect_loop_raise [of env p data ws]) simp_all
      with assms show ?thesis by simp
    next
      case True
      then obtain kvs where d: "data = PyDict kvs" by blast
      have r: "read_front_matter env p = (Some (PyDict kvs), ws)"
        using Pair Some d by simp
      show ?thesis
      proof (cases "kvs = [] \<or> (ig \<and> truthy (dict_get kvs (PyStr ''draft'') (PyBool False)))")
        case True
        have l: "collect_loop env ig st (p # ps) = collect_loop env ig ?st0 ps"
        proof (cases "kvs = []")
          case True
          with r show ?thesis by (intro collect_loop_empty) simp
        next
          case False
          with True r show ?thesis by (intro collect_loop_draft [of env p kvs ws]) simp_all
        qed
        show ?thesis
          by (rule skip [OF contributes_skipped [OF r True] l])
      next
        case False
        then have k: "kvs \<noteq> []"
          and nd: "\<not> (ig \<and> truthy (dict_get kvs (PyStr ''draft'') (PyBool False)))"
          by simp_all
        note c = contributes_counted [OF r k nd]
        note l = collect_loop_record [OF r k nd, of st ps]
        show ?thesis
        proof (rule exI [of _ "record_file p kvs ?st0"], intro conjI)
          show "collect_loop env ig (record_file p kvs ?st0) ps = Inr st'"
            using assms l by simp
        qed (simp_all add: file_tags_def file_cats_def c record_file_def Let_def)
      qed
    qed
  qed
qed

lemma collect_loop_fields:
  "collect_loop env ig st ps = Inr st' \<Longrightarrow>
     tags_counter st' = counter_update (concat (map (file_tags env ig) ps)) (tags_counter st)
   \<and> cats_counter st' = counter_update (concat (map (file_cats env ig) ps)) (cats_counter st)
   \<and> tag_to_files st' = fold (\<lambda>p. append_path p (file_tags env ig p)) ps (tag_to_files st)
   \<and> cat_to_files st' = fold (\<lambda>p. append_path p (file_cats env ig p)) ps (cat_to_files st)
   \<and> file_usage st' =
       fold (\<lambda>p fu. case contributes env ig p of None \<Rightarrow> fu | Some tc \<Rightarrow> AList.update p tc fu)
         ps (file_usage st)"
proof (induction ps arbitrary: st)
  case Nil
  then show ?case by (simp add: counter_update_Nil)
next
  case (Cons p ps)
  from collect_loop_step [OF Cons.prems] obtain st1 where
    l: "collect_loop env ig st1 ps = Inr st'"
    and f: "tags_counter st1 = counter_update (file_tags env ig p) (tags_counter st)"
      "cats_counter st1 = counter_update (file_cats env ig p) (cats_counter st)"
      "tag_to_files st1 = append_path p (file_tags env ig p) (tag_to_files st)"
      "cat_to_files st1 = append_path p (file_cats env ig p) (cat_to_files st)"
      "file_usage st1 =
         (case contributes env ig p of None \<Rightarrow> file_usage st
          | Some tc \<Rightarrow> AList.update p tc (file_usage st))"
    by blast
  show ?case
    using Cons.IH [OF l] by (simp add: f counter_update_append)
qed


section \<open>The claims about aggregation\<close>

lemma collect_fields:
  assumes "collect env content_dir exts ig file_paths = Inr st"
  shows "tags_counter st =
           counter_update
             (concat (map (file_tags env ig) (scan_paths env content_dir exts file_paths))) []"
    and "cats_counter st =
           counter_update
             (concat (map (file_cats env ig) (scan_paths env content_dir exts file_paths))) []"
    and "tag_to_files st =
           fold (\<lambda>p. append_path p (file_tags env ig p))
             (scan_paths env content_dir exts file_paths) []"
    and "cat_to_files st =
           fold (\<lambda>p. append_path p (file_cats env ig p))
             (scan_paths env content_dir exts file_paths) []"
    and "file_usage st =
           fold (\<lambda>p fu. case contributes env ig p of None \<Rightarrow> fu
                         | Some tc \<Rightarrow> AList.update p tc fu)
             (scan_paths env content_dir exts file_paths) []"
  using collect_loop_fields [OF assms [unfolded collect_def]]
  by (simp_all add: empty_run_def)

lemma map_of_counter_of_lists:
  "map_of (counter_update (concat (map f ps)) []) name =
     (let n = sum_list (map (\<lambda>p. int (count_list (f p) name)) ps)
      in if n = 0 then None else Some n)"
proof -
  have "int (count_list (concat (map f ps)) name)
      = sum_list (map (\<lambda>p. int (count_list (f p) name)) ps)"
    by (simp add: count_list_concat comp_def)
  then show ?thesis
    unfolding map_of_counter_update_empty Let_def
    by (metis of_nat_eq_0_iff)
qed

text \<open>
  C1. After a collection run that returns, the tag counter holds for every name
  the number of times the name occurs, with multiplicity, in the normalised tag
  lists of the files that count (read, with a front matter that is a dict and not
  empty, not excluded as drafts), summed over the files the run visits; a name
  that does not occur is not a key. The same holds for the category counter.
\<close>

theorem collect_counts:
  assumes "collect env content_dir exts ig file_paths = Inr st"
  shows "map_of (tags_counter st) name =
           (let n = sum_list (map (\<lambda>p. int (count_list (file_tags env ig p) name))
                                (scan_paths env content_dir exts file_paths))
            in if n = 0 then None else Some n)
       \<and> map_of (cats_counter st) name =
           (let n = sum_list (map (\<lambda>p. int (count_list (file_cats env ig p) name))
                                (scan_paths env content_dir exts file_paths))
            in if n = 0 then None else Some n)"
  unfolding collect_fields [OF assms]
  by (intro conjI map_of_counter_of_lists)

lemma example_run:
  "collect example_env ''content'' [''.md''] False None =
     Inr \<lparr>tags_counter = [(''go'', 2), (''rust'', 1)],
          cats_counter = [(''backend'', 1)],
          file_usage = [(''content/post.md'', [''go'', ''go'', ''rust''], [''backend''])],
          tag_to_files = [(''go'', [''content/post.md'', ''content/post.md'']),
                          (''rust'', [''content/post.md''])],
          cat_to_files = [(''backend'', [''content/post.md''])],
          stderr = []\<rparr>"
  by code_simp

theorem collect_counts_witness:
  "tags_counter (projr (collect example_env ''content'' [''.md''] False None))
     = [(''go'', 2), (''rust'', 1)]
   \<and> cats_counter (projr (collect example_env ''content'' [''.md''] False None))
     = [(''backend'', 1)]
   \<and> sum_list (map (\<lambda>p. int (count_list (file_tags example_env False p) ''go''))
                 (scan_paths example_env ''content'' [''.md''] None)) = 2
   \<and> sum_list (map (\<lambda>p. int (count_list (file_cats example_env False p) ''backend''))
                 (scan_paths example_env ''content'' [''.md''] None)) = 1"
  using collect_counts [OF example_run, of "''go''" ]
        collect_counts [OF example_run, of "''backend''"]
  by (simp add: example_run Let_def split: if_splits)


lemma update_map_snd:
  "map (\<lambda>(k, v). (k, f v)) (AList.update k v m) =
     AList.update k (f v) (map (\<lambda>(k, v). (k, f v)) m)"
  by (induction m) auto

lemma map_of_map_snd:
  "map_of (map (\<lambda>(k, v). (k, f v)) m) k = map_option f (map_of m k)"
  by (induction m) auto

lemma counter_get_lengths:
  "counter_get (map (\<lambda>(k, fs). (k, int (length fs))) m) k = int (length (mapping_get m k))"
  by (simp add: counter_get_def mapping_get_def map_of_map_snd split: option.splits)

lemma lengths_append_path:
  "map (\<lambda>(k, fs). (k, int (length fs))) (append_path p names m) =
     counter_update names (map (\<lambda>(k, fs). (k, int (length fs))) m)"
proof (induction names arbitrary: m)
  case Nil
  show ?case by (simp add: append_path_def counter_update_def)
next
  case (Cons t names)
  have "append_path p (t # names) m =
          append_path p names (AList.update t (mapping_get m t @ [p]) m)"
    by (simp add: append_path_def)
  then show ?case
    by (simp add: Cons.IH update_map_snd counter_get_lengths counter_update_Cons add.commute)
qed

lemma lengths_fold_append_path:
  "map (\<lambda>(k, fs). (k, int (length fs))) (fold (\<lambda>p. append_path p (f p)) ps m) =
     counter_update (concat (map f ps)) (map (\<lambda>(k, fs). (k, int (length fs))) m)"
  by (induction ps arbitrary: m)
     (simp_all add: counter_update_Nil counter_update_append lengths_append_path)

lemma update_entries:
  "(k', v') \<in> set (AList.update k v m) \<Longrightarrow> (k', v') = (k, v) \<or> (k', v') \<in> set m"
  by (induction m) (auto split: if_splits)

lemma append_path_nonempty:
  "\<forall>(k, fs)\<in>set m. fs \<noteq> [] \<Longrightarrow> \<forall>(k, fs)\<in>set (append_path p names m). fs \<noteq> []"
proof (induction names arbitrary: m)
  case Nil
  then show ?case by (simp add: append_path_def)
next
  case (Cons t names)
  have a: "append_path p (t # names) m =
          append_path p names (AList.update t (mapping_get m t @ [p]) m)"
    by (simp add: append_path_def)
  have "\<forall>(k, fs)\<in>set (AList.update t (mapping_get m t @ [p]) m). fs \<noteq> []"
    using Cons.prems by (auto dest!: update_entries)
  then show ?case
    unfolding a by (rule Cons.IH)
qed

lemma fold_append_path_nonempty:
  "\<forall>(k, fs)\<in>set m. fs \<noteq> [] \<Longrightarrow>
   \<forall>(k, fs)\<in>set (fold (\<lambda>p. append_path p (f p)) ps m). fs \<noteq> []"
proof (induction ps arbitrary: m)
  case Nil
  then show ?case by simp
next
  case (Cons p ps)
  show ?case
    unfolding fold_simps by (rule Cons.IH) (rule append_path_nonempty [OF Cons.prems])
qed

lemma counter_matches_mapping:
  assumes c: "c = map (\<lambda>(k, fs). (k, int (length fs))) m"
    and ne: "\<forall>(k, fs)\<in>set m. fs \<noteq> []"
  shows "fst ` set c = fst ` set m
       \<and> (\<forall>name\<in>fst ` set c.
             map_of c name = Some (int (length (mapping_get m name)))
           \<and> 0 < length (mapping_get m name))"
proof (intro conjI ballI)
  show k: "fst ` set c = fst ` set m"
    unfolding c by force
  fix name assume "name \<in> fst ` set c"
  then have "name \<in> fst ` set m" using k by simp
  then obtain fs where f: "map_of m name = Some fs"
    by (metis map_of_eq_None_iff not_None_eq)
  then have "(name, fs) \<in> set m" by (rule map_of_SomeD)
  then have "fs \<noteq> []" using ne by auto
  then show "0 < length (mapping_get m name)"
    by (simp add: mapping_get_def f)
  show "map_of c name = Some (int (length (mapping_get m name)))"
    unfolding c by (simp add: map_of_map_snd mapping_get_def f)
qed

lemma collect_lengths:
  assumes "collect env content_dir exts ig file_paths = Inr st"
  shows "tags_counter st = map (\<lambda>(k, fs). (k, int (length fs))) (tag_to_files st)"
    and "cats_counter st = map (\<lambda>(k, fs). (k, int (length fs))) (cat_to_files st)"
    and "\<forall>(k, fs)\<in>set (tag_to_files st). fs \<noteq> []"
    and "\<forall>(k, fs)\<in>set (cat_to_files st). fs \<noteq> []"
proof -
  note f = collect_fields [OF assms]
  show "tags_counter st = map (\<lambda>(k, fs). (k, int (length fs))) (tag_to_files st)"
    unfolding f(1) f(3) by (simp add: lengths_fold_append_path)
  show "cats_counter st = map (\<lambda>(k, fs). (k, int (length fs))) (cat_to_files st)"
    unfolding f(2) f(4) by (simp add: lengths_fold_append_path)
  show "\<forall>(k, fs)\<in>set (tag_to_files st). fs \<noteq> []"
    unfolding f(3) by (rule fold_append_path_nonempty) simp
  show "\<forall>(k, fs)\<in>set (cat_to_files st). fs \<noteq> []"
    unfolding f(4) by (rule fold_append_path_nonempty) simp
qed

text \<open>
  C8. After a collection run that returns, the tag counter and the tag inverse
  mapping have the same names; for each of them the count is the length of the
  name's list of files, and that list is not empty, so the count is positive. The
  same holds for the categories.
\<close>

theorem counter_matches_inverse:
  assumes "collect env content_dir exts ig file_paths = Inr st"
  shows "fst ` set (tags_counter st) = fst ` set (tag_to_files st)
       \<and> (\<forall>name\<in>fst ` set (tags_counter st).
             map_of (tags_counter st) name
               = Some (int (length (mapping_get (tag_to_files st) name)))
           \<and> 0 < length (mapping_get (tag_to_files st) name))
       \<and> fst ` set (cats_counter st) = fst ` set (cat_to_files st)
       \<and> (\<forall>name\<in>fst ` set (cats_counter st).
             map_of (cats_counter st) name
               = Some (int (length (mapping_get (cat_to_files st) name)))
           \<and> 0 < length (mapping_get (cat_to_files st) name))"
  using counter_matches_mapping [OF collect_lengths(1) [OF assms] collect_lengths(3) [OF assms]]
        counter_matches_mapping [OF collect_lengths(2) [OF assms] collect_lengths(4) [OF assms]]
  by blast

lemma blog_run:
  "collect blog_env ''blog'' [''.md''] False None =
     Inr \<lparr>tags_counter = [(''zeta'', 1), (''alpha'', 3)],
          cats_counter = [(''news'', 1)],
          file_usage = [(''blog/a.md'', [''zeta'', ''alpha''], [''news'']),
                        (''blog/b.md'', [''alpha''], []),
                        (''blog/g.md'', [''alpha''], [])],
          tag_to_files = [(''zeta'', [''blog/a.md'']),
                          (''alpha'', [''blog/a.md'', ''blog/b.md'', ''blog/g.md''])],
          cat_to_files = [(''news'', [''blog/a.md''])],
          stderr = [ErrorReading ''blog/c.md'', ErrorParsing ''blog/d.md'']\<rparr>"
  by code_simp

theorem counter_matches_inverse_witness:
  "''alpha'' \<in> fst ` set (tags_counter (projr (collect blog_env ''blog'' [''.md''] False None)))
   \<and> map_of (tags_counter (projr (collect blog_env ''blog'' [''.md''] False None))) ''alpha''
       = Some 3
   \<and> length (mapping_get (tag_to_files (projr (collect blog_env ''blog'' [''.md''] False None)))
        ''alpha'') = 3
   \<and> ''news'' \<in> fst ` set (cats_counter (projr (collect blog_env ''blog'' [''.md''] False None)))
   \<and> length (mapping_get (cat_to_files (projr (collect blog_env ''blog'' [''.md''] False None)))
        ''news'') = 1"
  using counter_matches_inverse [OF blog_run]
  by (simp add: blog_run mapping_get_def)


lemma map_of_fold_usage:
  "map_of (fold (\<lambda>p fu. case c p of None \<Rightarrow> fu | Some tc \<Rightarrow> AList.update p tc fu) ps fu0) q =
     (if q \<in> set ps \<and> c q \<noteq> None then c q else map_of fu0 q)"
proof (induction ps arbitrary: fu0)
  case Nil
  show ?case by simp
next
  case (Cons p ps)
  show ?case
    by (cases "c p") (auto simp: Cons.IH update_conv')
qed

lemma count_list_concat_ge:
  "p \<in> set ps \<Longrightarrow> count_list (f p) k \<le> count_list (concat (map f ps)) k"
  by (induction ps) auto

text \<open>
  C2, as the code has it. The usage record of a file that counts is the pair of its
  normalised tag list and category list, as \<open>coerce_list\<close> returned them: a name
  listed twice is in the record twice. Every occurrence is also counted in the
  global counter, which is therefore at least the number of occurrences in the
  record.
\<close>

theorem usage_record_keeps_lists:
  assumes "collect env content_dir exts ig file_paths = Inr st"
    and "p \<in> set (scan_paths env content_dir exts file_paths)"
    and "contributes env ig p = Some (tags, cats)"
  shows "map_of (file_usage st) p = Some (tags, cats)
       \<and> int (count_list tags name) \<le> counter_get (tags_counter st) name
       \<and> int (count_list cats name) \<le> counter_get (cats_counter st) name"
proof -
  note f = collect_fields [OF assms(1)]
  have t: "file_tags env ig p = tags" and c: "file_cats env ig p = cats"
    by (simp_all add: file_tags_def file_cats_def assms(3))
  have "map_of (file_usage st) p = Some (tags, cats)"
    unfolding f(5) map_of_fold_usage using assms(2,3) by simp
  moreover have "int (count_list tags name) \<le> counter_get (tags_counter st) name"
    unfolding f(1) counter_get_counter_update
    using count_list_concat_ge [OF assms(2), of "file_tags env ig" name]
    by (simp add: t counter_get_def)
  moreover have "int (count_list cats name) \<le> counter_get (cats_counter st) name"
    unfolding f(2) counter_get_counter_update
    using count_list_concat_ge [OF assms(2), of "file_cats env ig" name]
    by (simp add: c counter_get_def)
  ultimately show ?thesis by blast
qed

lemma example_paths: "scan_paths example_env ''content'' [''.md''] None = [''content/post.md'']"
  by code_simp

lemma example_contributes:
  "contributes example_env False ''content/post.md'' = Some ([''go'', ''go'', ''rust''], [''backend''])"
  by code_simp

theorem usage_record_keeps_lists_witness:
  "map_of (file_usage (projr (collect example_env ''content'' [''.md''] False None)))
      ''content/post.md'' = Some ([''go'', ''go'', ''rust''], [''backend''])
   \<and> 2 \<le> counter_get (tags_counter (projr (collect example_env ''content'' [''.md''] False None)))
            ''go''"
  using usage_record_keeps_lists [OF example_run _ example_contributes, of "''go''"]
  by (simp add: example_paths example_run)

text \<open>
  The claim C2 as it is written fails: the post of the example lists the tag go
  twice (as \<open>Go\<close> and \<open>go\<close>), and its usage record holds go twice.
\<close>

theorem usage_record_duplicate:
  "count_list
     (fst (the (map_of (file_usage (projr (collect example_env ''content'' [''.md''] False None)))
                  ''content/post.md'')))
     ''go'' = 2"
  by (simp add: example_run)


section \<open>The claims about files that are passed over\<close>

lemma read_failure_warns:
  "readlines env p = None \<Longrightarrow> read_front_matter env p = (None, [ErrorReading p])"
  by (simp add: read_front_matter_def)

lemma parse_failure_warns:
  "readlines env p = Some lines \<Longrightarrow> is_front_matter_yaml lines = (0, e) \<Longrightarrow>
   safe_load env (concat (slice lines 1 e)) = None \<Longrightarrow>
   read_front_matter env p = (None, [ErrorParsing p])"
  by (simp add: read_front_matter_def)

lemma read_no_front_matter:
  "readlines env q = Some ls \<Longrightarrow> fst (is_front_matter_yaml ls) = - 1 \<Longrightarrow>
   read_front_matter env q = (Some (PyDict []), [])"
  by (cases "is_front_matter_yaml ls") (simp add: read_front_matter_def)

lemma read_empty_block:
  "readlines env p = Some lines \<Longrightarrow> is_front_matter_yaml lines = (0, e) \<Longrightarrow>
   safe_load env (concat (slice lines 1 e)) = Some loaded \<Longrightarrow> \<not> truthy loaded \<Longrightarrow>
   read_front_matter env p = (Some (PyDict []), [])"
  by (simp add: read_front_matter_def)

lemma collect_loop_quiet_skip:
  "read_front_matter env p = (Some (PyDict []), []) \<Longrightarrow>
   collect_loop env ig st (p # ps) = collect_loop env ig st ps"
  by (simp add: Let_def)

lemma collect_loop_head:
  "(\<forall>zs. collect_loop env ig st (x # zs) = Inl AttributeError)
   \<or> (\<exists>st1. \<forall>zs. collect_loop env ig st (x # zs) = collect_loop env ig st1 zs)"
proof -
  obtain d ws where r: "read_front_matter env x = (d, ws)"
    by (cases "read_front_matter env x")
  show ?thesis
  proof (cases d)
    case None
    then show ?thesis
      using collect_loop_failed [of env x ws ig st] r by blast
  next
    case (Some data)
    show ?thesis
    proof (cases "\<exists>kvs. data = PyDict kvs")
      case False
      then show ?thesis
        using collect_loop_raise [of env x data ws ig st] r Some by blast
    next
      case True
      then obtain kvs where d: "data = PyDict kvs" by blast
      have r': "read_front_matter env x = (Some (PyDict kvs), ws)"
        using r Some d by simp
      show ?thesis
      proof (cases "kvs = []")
        case True
        then show ?thesis
          using collect_loop_empty [of env x ws ig st] r' by blast
      next
        case False
        show ?thesis
        proof (cases "ig \<and> truthy (dict_get kvs (PyStr ''draft'') (PyBool False))")
          case True
          then show ?thesis
            using collect_loop_draft [of env x kvs ws ig st] r' by blast
        next
          case nd: False
          show ?thesis
            using collect_loop_record [OF r' False nd, of st] by blast
        qed
      qed
    qed
  qed
qed

lemma collect_loop_append:
  "collect_loop env ig st (xs @ ys) =
     (case collect_loop env ig st xs of
        Inl err \<Rightarrow> Inl err
      | Inr st1 \<Rightarrow> collect_loop env ig st1 ys)"
proof (induction xs arbitrary: st)
  case Nil
  show ?case by simp
next
  case (Cons x xs)
  from collect_loop_head [of env ig st x] show ?case
  proof
    assume a: "\<forall>zs. collect_loop env ig st (x # zs) = Inl AttributeError"
    have "collect_loop env ig st (x # xs @ ys) = Inl AttributeError"
      and "collect_loop env ig st (x # xs) = Inl AttributeError"
      using a by blast+
    then show ?thesis by simp
  next
    assume "\<exists>st1. \<forall>zs. collect_loop env ig st (x # zs) = collect_loop env ig st1 zs"
    then obtain st1 where
      a: "\<And>zs. collect_loop env ig st (x # zs) = collect_loop env ig st1 zs"
      by blast
    have "collect_loop env ig st ((x # xs) @ ys) = collect_loop env ig st1 (xs @ ys)"
      using a [of "xs @ ys"] by simp
    then show ?thesis
      by (simp only: Cons.IH a)
  qed
qed

text \<open>
  C9. A file whose markers are there, and whose block the loader turns into a
  falsy value (nothing, or an empty mapping), is read as the empty dict without a
  warning, as a file with no front matter is; it does not count; the loop gives
  the same result with the file as without it; and after a run that returns the
  file has no usage record, so the per-file listing does not show it.
\<close>

theorem empty_front_matter_skipped:
  assumes "readlines env p = Some lines"
    and "is_front_matter_yaml lines = (0, e)"
    and "safe_load env (concat (slice lines 1 e)) = Some loaded"
    and "\<not> truthy loaded"
  shows "read_front_matter env p = (Some (PyDict []), [])
       \<and> (readlines env q = Some ls \<and> fst (is_front_matter_yaml ls) = - 1
            \<longrightarrow> read_front_matter env q = read_front_matter env p)
       \<and> contributes env ig p = None
       \<and> collect_loop env ig st (before @ p # after) = collect_loop env ig st (before @ after)
       \<and> (collect env content_dir exts ig file_paths = Inr st'
            \<longrightarrow> map_of (file_usage st') p = None \<and> p \<notin> fst ` set (file_usage st'))"
proof -
  note r = read_empty_block [OF assms]
  have c: "contributes env ig p = None"
    by (simp add: contributes_def r)
  have q: "collect_loop env ig st1 (p # after) = collect_loop env ig st1 after" for st1
    by (rule collect_loop_quiet_skip [OF r])
  have l: "collect_loop env ig st (before @ p # after) = collect_loop env ig st (before @ after)"
    by (simp only: collect_loop_append q)
  have u: "map_of (file_usage st') p = None \<and> p \<notin> fst ` set (file_usage st')"
    if "collect env content_dir exts ig file_paths = Inr st'"
  proof -
    have "map_of (file_usage st') p = None"
      unfolding collect_fields(5) [OF that] map_of_fold_usage by (simp add: c)
    then show ?thesis
      by (simp add: map_of_eq_None_iff)
  qed
  show ?thesis
    using r c l u by (auto simp: read_no_front_matter)
qed

lemma blog_e_lines:
  "readlines blog_env ''blog/e.md'' = Some [''---'' @ nl, ''---'' @ nl, ''text'' @ nl]"
  by code_simp

lemma blog_e_markers:
  "is_front_matter_yaml [''---'' @ nl, ''---'' @ nl, ''text'' @ nl] = (0, 1)"
  by code_simp

lemma blog_e_loaded:
  "safe_load blog_env (concat (slice [''---'' @ nl, ''---'' @ nl, ''text'' @ nl] 1 1)) = Some PyNone"
  by code_simp

lemma blog_f_lines:
  "readlines blog_env ''blog/f.md'' = Some [''# Title'' @ nl, ''text'' @ nl]
   \<and> fst (is_front_matter_yaml [''# Title'' @ nl, ''text'' @ nl]) = - 1"
  by code_simp

theorem empty_front_matter_skipped_witness:
  "read_front_matter blog_env ''blog/e.md'' = (Some (PyDict []), [])
   \<and> read_front_matter blog_env ''blog/f.md'' = read_front_matter blog_env ''blog/e.md''
   \<and> collect_loop blog_env False empty_run [''blog/a.md'', ''blog/e.md'', ''blog/g.md'']
       = collect_loop blog_env False empty_run [''blog/a.md'', ''blog/g.md'']
   \<and> ''blog/e.md'' \<notin> fst ` set (file_usage (projr (collect blog_env ''blog'' [''.md''] False None)))"
  using empty_front_matter_skipped [OF blog_e_lines blog_e_markers blog_e_loaded,
          of "''blog/f.md''" "[''# Title'' @ nl, ''text'' @ nl]" False empty_run
             "[''blog/a.md'']" "[''blog/g.md'']" "''blog''" "[''.md'']" None
             "projr (collect blog_env ''blog'' [''.md''] False None)"]
        blog_f_lines
  by (simp add: blog_run)

text \<open>
  C6. A file that cannot be read, or whose front matter the loader rejects, gives
  a warning and is passed over (\<open>read_failure_warns\<close>, \<open>parse_failure_warns\<close>,
  \<open>collect_loop_failed\<close>). The run is still not safe from a single file: when the
  loader returns something that is not a mapping, here the str \<open>hello\<close>,
  \<open>data.get\<close> raises \<open>AttributeError\<close>, and neither \<open>collect\<close> nor \<open>main\<close> returns.
\<close>

theorem collect_aborts_on_scalar_front_matter:
  "read_front_matter scalar_env ''notes/n.md'' = (Some (PyStr ''hello''), [])
   \<and> collect scalar_env ''notes'' [''.md''] False None = Inl AttributeError
   \<and> collect scalar_env ''notes'' [''.md''] True None = Inl AttributeError
   \<and> main scalar_env (default_args\<lparr>arg_dir := ''notes''\<rparr>) = Inl AttributeError"
  by code_simp


section \<open>The claims about the reports\<close>

lemma count_key_order:
  "sorted (map (\<lambda>kv. (- snd kv, fst kv)) (xs :: (string \<times> int) list)) \<Longrightarrow>
   sorted_wrt (\<lambda>a b. snd a > snd b \<or> (snd a = snd b \<and> fst a \<le> fst b)) xs"
proof -
  assume "sorted (map (\<lambda>kv. (- snd kv, fst kv)) xs)"
  then have "sorted_wrt (\<lambda>a b. (- snd a, fst a) \<le> (- snd b, fst b)) xs"
    by (simp add: sorted_map)
  then show ?thesis
    by (rule sorted_wrt_mono_rel [rotated]) (auto simp: less_eq_prod_def)
qed

text \<open>
  C3. \<open>sort_and_filter\<close> returns the entries whose count is at least the
  threshold, each as often as the counter has it, put in order: by name in the
  alpha mode, by descending count and then by name in the count mode. With a
  top-N above zero the result is the first N entries of that ordered list, and
  otherwise the whole list.
\<close>

theorem sort_and_filter_spec:
  "\<exists>ordered.
      mset ordered = mset (filter (\<lambda>kv. snd kv \<ge> min_count) counter)
    \<and> (mode = ''alpha'' \<longrightarrow> sorted (map fst ordered))
    \<and> (mode = ''count'' \<longrightarrow>
          sorted_wrt (\<lambda>a b. snd a > snd b \<or> (snd a = snd b \<and> fst a \<le> fst b)) ordered)
    \<and> sort_and_filter counter mode min_count top_n =
          (if top_n > 0 then take (nat top_n) ordered else ordered)"
proof -
  define items where "items = filter (\<lambda>kv. snd kv \<ge> min_count) counter"
  define ordered where
    "ordered = (if mode = ''alpha'' then sort_key (\<lambda>kv. fst kv) items
                else sort_key (\<lambda>kv. (- snd kv, fst kv)) items)"
  have f: "filter (\<lambda>(k, v). v \<ge> min_count) counter = items"
    unfolding items_def by (rule filter_cong) auto
  have a: "mset ordered = mset items"
    by (simp add: ordered_def)
  have b: "mode = ''alpha'' \<longrightarrow> sorted (map fst ordered)"
    by (simp add: ordered_def)
  have c: "mode = ''count'' \<longrightarrow>
          sorted_wrt (\<lambda>a b. snd a > snd b \<or> (snd a = snd b \<and> fst a \<le> fst b)) ordered"
    by (auto simp: ordered_def intro!: count_key_order)
  have d: "sort_and_filter counter mode min_count top_n =
          (if top_n > 0 then take (nat top_n) ordered else ordered)"
    by (simp add: sort_and_filter_def f ordered_def Let_def)
  show ?thesis
    using a b c d unfolding items_def by blast
qed

lemma sort_and_filter_count_example:
  "sort_and_filter [(''b'', 2), (''a'', 2), (''c'', 5), (''d'', 1)] ''count'' 2 2
     = [(''c'', 5), (''a'', 2)]"
  by code_simp

lemma sort_and_filter_alpha_example:
  "sort_and_filter [(''b'', 2), (''a'', 2), (''c'', 5), (''d'', 1)] ''alpha'' 2 0
     = [(''a'', 2), (''b'', 2), (''c'', 5)]"
  by code_simp

theorem sort_and_filter_spec_witness:
  "(\<exists>ordered.
      mset ordered = mset [(''b'', 2), (''a'', 2), (''c'', 5)]
    \<and> sorted_wrt (\<lambda>a b. snd a > snd b \<or> (snd a = snd b \<and> fst a \<le> fst b)) ordered
    \<and> [(''c'', 5), (''a'', 2 :: int)] = take 2 ordered)
   \<and> (\<exists>ordered.
      mset ordered = mset [(''b'', 2), (''a'', 2), (''c'', 5)]
    \<and> sorted (map fst ordered)
    \<and> [(''a'', 2), (''b'', 2), (''c'', 5 :: int)] = ordered)"
  using sort_and_filter_spec [of 2 "[(''b'', 2), (''a'', 2), (''c'', 5), (''d'', 1)]" "''count''" 2]
        sort_and_filter_spec [of 2 "[(''b'', 2), (''a'', 2), (''c'', 5), (''d'', 1)]" "''alpha''" 0]
  unfolding sort_and_filter_count_example sort_and_filter_alpha_example
  by simp


section \<open>The claims about the singleton list and the mapping views\<close>

lemma counter_update_distinct:
  "distinct (map fst c) \<Longrightarrow> distinct (map fst (counter_update xs c))"
  by (induction xs arbitrary: c)
     (simp_all add: counter_update_Nil counter_update_Cons distinct_update)

lemma collect_distinct:
  assumes "collect env content_dir exts ig file_paths = Inr st"
  shows "distinct (map fst (tags_counter st))"
    and "distinct (map fst (cats_counter st))"
    and "distinct (map fst (tag_to_files st))"
    and "distinct (map fst (cat_to_files st))"
proof -
  note f = collect_fields [OF assms]
  note l = collect_lengths [OF assms]
  show t: "distinct (map fst (tags_counter st))"
    unfolding f(1) by (rule counter_update_distinct) simp
  show c: "distinct (map fst (cats_counter st))"
    unfolding f(2) by (rule counter_update_distinct) simp
  have "map fst (tags_counter st) = map fst (tag_to_files st)"
    unfolding l(1) by (simp add: comp_def case_prod_beta)
  then show "distinct (map fst (tag_to_files st))" using t by simp
  have "map fst (cats_counter st) = map fst (cat_to_files st)"
    unfolding l(2) by (simp add: comp_def case_prod_beta)
  then show "distinct (map fst (cat_to_files st))" using c by simp
qed

lemma singleton_rows_member:
  assumes "distinct (map fst m)"
  shows "(name, k) \<in> set (singleton_rows m) \<longleftrightarrow> k = 1 \<and> length (mapping_get m name) = 1"
proof -
  have "(name, k) \<in> set (singleton_rows m)
        \<longleftrightarrow> k = 1 \<and> (\<exists>files. (name, files) \<in> set m \<and> length files = 1)"
    by (auto simp: singleton_rows_def)
  also have "\<dots> \<longleftrightarrow> k = 1 \<and> (\<exists>files. map_of m name = Some files \<and> length files = 1)"
    using assms by simp
  also have "\<dots> \<longleftrightarrow> k = 1 \<and> length (mapping_get m name) = 1"
    by (cases "map_of m name") (simp_all add: mapping_get_def)
  finally show ?thesis .
qed

lemma singleton_rows_sorted: "sorted (map fst (singleton_rows m))"
  by (simp add: singleton_rows_def)

lemma main_collect_filters:
  "main_collect env (a\<lparr>arg_min_count := lo, arg_top := n\<rparr>) = main_collect env a"
  by (simp add: main_collect_def main_exts_def main_file_paths_def)

text \<open>
  C4, as the code has it. A name is in the singleton list exactly when its list in
  the inverse mapping has length one, which is exactly when its global count is
  one: a path is entered once for every occurrence, so a name that one file lists
  twice is not a singleton. The singleton section of \<open>main\<close> is the same whatever
  the min-count and the top-N are, and its rows are in the order of their names.
\<close>

theorem singleton_rows_spec:
  assumes "main_collect env a = Inr st"
  shows "(\<exists>r. main env (a\<lparr>arg_min_count := lo, arg_top := n\<rparr>) = Inr r
            \<and> singletons_view r =
                (if arg_singletons a
                 then Some (singleton_rows (tag_to_files st), singleton_rows (cat_to_files st))
                 else None))
       \<and> ((name, k) \<in> set (singleton_rows (tag_to_files st))
            \<longleftrightarrow> k = 1 \<and> length (mapping_get (tag_to_files st) name) = 1)
       \<and> (length (mapping_get (tag_to_files st) name) = 1
            \<longleftrightarrow> counter_get (tags_counter st) name = 1)
       \<and> sorted (map fst (singleton_rows (tag_to_files st)))
       \<and> ((name, k) \<in> set (singleton_rows (cat_to_files st))
            \<longleftrightarrow> k = 1 \<and> length (mapping_get (cat_to_files st) name) = 1)
       \<and> (length (mapping_get (cat_to_files st) name) = 1
            \<longleftrightarrow> counter_get (cats_counter st) name = 1)
       \<and> sorted (map fst (singleton_rows (cat_to_files st)))"
proof -
  have c: "collect env (arg_dir a) (main_exts a) (arg_ignore_drafts a) (main_file_paths a) = Inr st"
    using assms by (simp add: main_collect_def)
  note d = collect_distinct [OF c]
  note l = collect_lengths [OF c]
  have m: "\<exists>r. main env (a\<lparr>arg_min_count := lo, arg_top := n\<rparr>) = Inr r
            \<and> singletons_view r =
                (if arg_singletons a
                 then Some (singleton_rows (tag_to_files st), singleton_rows (cat_to_files st))
                 else None)"
    by (simp add: main_def main_collect_filters assms)
  have t: "length (mapping_get (tag_to_files st) name) = 1
            \<longleftrightarrow> counter_get (tags_counter st) name = 1"
    unfolding l(1) counter_get_lengths by simp
  have k: "length (mapping_get (cat_to_files st) name) = 1
            \<longleftrightarrow> counter_get (cats_counter st) name = 1"
    unfolding l(2) counter_get_lengths by simp
  show ?thesis
    using m t k singleton_rows_member [OF d(3)] singleton_rows_member [OF d(4)]
      singleton_rows_sorted
    by blast
qed

lemma blog_main_collect:
  "main_collect blog_env (default_args\<lparr>arg_dir := ''blog''\<rparr>) =
     Inr \<lparr>tags_counter = [(''zeta'', 1), (''alpha'', 3)],
          cats_counter = [(''news'', 1)],
          file_usage = [(''blog/a.md'', [''zeta'', ''alpha''], [''news'']),
                        (''blog/b.md'', [''alpha''], []),
                        (''blog/g.md'', [''alpha''], [])],
          tag_to_files = [(''zeta'', [''blog/a.md'']),
                          (''alpha'', [''blog/a.md'', ''blog/b.md'', ''blog/g.md''])],
          cat_to_files = [(''news'', [''blog/a.md''])],
          stderr = [ErrorReading ''blog/c.md'', ErrorParsing ''blog/d.md'']\<rparr>"
  by code_simp

lemma blog_singletons:
  "singleton_rows [(''zeta'', [''blog/a.md'']),
                   (''alpha'', [''blog/a.md'', ''blog/b.md'', ''blog/g.md''])] = [(''zeta'', 1)]
   \<and> singleton_rows [(''news'', [''blog/a.md''])] = [(''news'', 1)]"
  by code_simp

theorem singleton_rows_spec_witness:
  "(\<exists>r. main blog_env (default_args\<lparr>arg_dir := ''blog'', arg_min_count := 2, arg_top := 1\<rparr>) = Inr r
        \<and> singletons_view r = Some ([(''zeta'', 1)], [(''news'', 1)]))
   \<and> (''zeta'', 1) \<in> set (singleton_rows
          [(''zeta'', [''blog/a.md'']),
           (''alpha'', [''blog/a.md'', ''blog/b.md'', ''blog/g.md''])])
   \<and> counter_get [(''zeta'', 1), (''alpha'', 3)] ''zeta'' = 1"
  using singleton_rows_spec [OF blog_main_collect, where lo = 2 and n = 1
          and name = "''zeta''" and k = 1]
  by (simp add: blog_singletons default_args_def mapping_get_def)

text \<open>
  The claim C4 as it is written fails: in the example the tag go is used by one
  content item and no other, the post, and is not in the singleton list, because
  the post lists it twice.
\<close>

theorem singleton_misses_repeated_tag:
  "tag_users ''go'' (file_usage (projr (collect example_env ''content'' [''.md''] False None)))
     = [''content/post.md'']
   \<and> singletons_view (projr (main example_env (default_args\<lparr>arg_dir := ''content''\<rparr>)))
     = Some ([(''rust'', 1)], [(''backend'', 1)])"
  by code_simp


lemma fold_append_lines: "fold (\<lambda>p out. out @ [f p]) xs out = out @ map f xs"
  by (induction xs arbitrary: out) simp_all

lemma text_key_block: "text_key m k out = out @ text_block m k"
  by (simp add: text_key_def text_block_def fold_append_lines)

lemma markdown_key_block: "markdown_key m k out = out @ markdown_block m k"
  by (simp add: markdown_key_def markdown_block_def fold_append_lines)

lemma sort_eq_Nil: "sort xs = [] \<longleftrightarrow> xs = []"
  by (metis length_sort length_0_conv)

lemma csv_key_block: "csv_key m k out = out @ csv_block m k"
  by (simp add: csv_key_def csv_block_def fold_append_lines Let_def sort_eq_Nil)

lemma fold_blocks:
  "(\<And>k out. g k out = out @ b k) \<Longrightarrow> fold g keys out = out @ concat (map b keys)"
  by (induction keys arbitrary: out) simp_all

lemma update_new_key: "k \<notin> fst ` set d \<Longrightarrow> AList.update k v d = d @ [(k, v)]"
  by (induction d) auto

lemma fold_update_distinct:
  "distinct keys \<Longrightarrow> set keys \<inter> fst ` set d = {} \<Longrightarrow>
   fold (\<lambda>k d. AList.update k (v k) d) keys d = d @ map (\<lambda>k. (k, v k)) keys"
proof (induction keys arbitrary: d)
  case Nil
  show ?case by simp
next
  case (Cons k keys)
  have n: "k \<notin> fst ` set d" using Cons.prems(2) by auto
  have "set keys \<inter> fst ` set (d @ [(k, v k)]) = {}"
    using Cons.prems by auto
  then show ?case
    using Cons.prems(1) by (simp add: update_new_key [OF n] Cons.IH)
qed

lemma mapping_payload_entries:
  "distinct keys \<Longrightarrow>
   mapping_payload keys m label = JObj [(label, JObj (map (json_entry m) keys))]"
proof -
  assume d: "distinct keys"
  have "fold (\<lambda>k d. AList.update k (JList (map JStr (sort (mapping_get m k)))) d) keys []
        = [] @ map (\<lambda>k. (k, JList (map JStr (sort (mapping_get m k))))) keys"
    by (rule fold_update_distinct [OF d]) simp
  then show ?thesis
    by (simp add: mapping_payload_def json_entry_def fun_eq_iff cong: map_cong)
qed

lemma mapping_view_by_keys:
  assumes "distinct keys"
  shows "mapping_view env fmt header label keys m = view_by_keys env fmt header label keys m"
proof -
  have t: "fold (text_key m) keys out = out @ concat (map (text_block m) keys)" for out
    by (rule fold_blocks) (rule text_key_block)
  have k: "fold (markdown_key m) keys out = out @ concat (map (markdown_block m) keys)" for out
    by (rule fold_blocks) (rule markdown_key_block)
  have c: "fold (csv_key m) keys out = out @ concat (map (csv_block m) keys)" for out
    by (rule fold_blocks) (rule csv_key_block)
  show ?thesis
    unfolding mapping_view_def view_by_keys_def render_mapping_text_def
      render_mapping_markdown_def render_mapping_csv_def render_mapping_json_def
      mapping_payload_entries [OF assms] Let_def t k c
    by simp
qed

lemma sort_key_distinct_keys:
  "distinct (map fst xs) \<Longrightarrow> distinct (map fst (sort_key f xs))"
proof -
  assume d: "distinct (map fst xs)"
  have "mset (map fst (sort_key f xs)) = mset (map fst xs)"
    by simp
  then show ?thesis
    using d by (metis mset_eq_imp_distinct_iff)
qed

lemma take_sort_key_distinct_keys:
  "distinct (map fst xs) \<Longrightarrow> distinct (map fst (take k (sort_key f xs)))"
  using sort_key_distinct_keys [of xs f] by (simp add: take_map [symmetric])

lemma sort_and_filter_distinct:
  assumes "distinct (map fst c)"
  shows "distinct (map fst (sort_and_filter c mode lo n))"
proof -
  have f: "distinct (map fst (filter P c))" for P
    using assms by (rule distinct_map_filter)
  show ?thesis
    by (simp add: sort_and_filter_def Let_def take_sort_key_distinct_keys [OF f]
          sort_key_distinct_keys [OF f])
qed

text \<open>
  C5. When a mapping view is asked for, what \<open>main\<close> writes is the view written key
  by key over the names that \<open>sort_and_filter\<close> returns for the counter of the same
  kind, with the sort mode, the min-count and the top-N of the command line: those
  names and no others, in that order, each followed by its files. The keys of the
  inverse mapping itself are only looked up.
\<close>

theorem mapping_view_follows_filter:
  assumes "main_collect env a = Inr st"
  shows "\<exists>r. main env a = Inr r
       \<and> by_tag_view r =
           (if arg_by_tag a
            then Some (view_by_keys env (arg_format a) ''Files by Tag'' ''files_by_tag''
                         (map fst (sort_and_filter (tags_counter st)
                                     (arg_sort a) (arg_min_count a) (arg_top a)))
                         (tag_to_files st))
            else None)
       \<and> by_cat_view r =
           (if arg_by_cat a
            then Some (view_by_keys env (arg_format a) ''Files by Category'' ''files_by_category''
                         (map fst (sort_and_filter (cats_counter st)
                                     (arg_sort a) (arg_min_count a) (arg_top a)))
                         (cat_to_files st))
            else None)"
proof -
  have c: "collect env (arg_dir a) (main_exts a) (arg_ignore_drafts a) (main_file_paths a) = Inr st"
    using assms by (simp add: main_collect_def)
  note d = collect_distinct [OF c]
  have t: "distinct (ordered_keys_from a (tags_counter st))"
    unfolding ordered_keys_from_def by (rule sort_and_filter_distinct [OF d(1)])
  have k: "distinct (ordered_keys_from a (cats_counter st))"
    unfolding ordered_keys_from_def by (rule sort_and_filter_distinct [OF d(2)])
  show ?thesis
    unfolding main_def assms
    by (simp add: mapping_view_by_keys [OF t] mapping_view_by_keys [OF k])
       (simp add: ordered_keys_from_def)
qed

lemma blog_csv_collect:
  "main_collect blog_env
     (default_args\<lparr>arg_dir := ''blog'', arg_by_tag := True, arg_format := ''csv'',
                   arg_min_count := 2\<rparr>) =
     Inr \<lparr>tags_counter = [(''zeta'', 1), (''alpha'', 3)],
          cats_counter = [(''news'', 1)],
          file_usage = [(''blog/a.md'', [''zeta'', ''alpha''], [''news'']),
                        (''blog/b.md'', [''alpha''], []),
                        (''blog/g.md'', [''alpha''], [])],
          tag_to_files = [(''zeta'', [''blog/a.md'']),
                          (''alpha'', [''blog/a.md'', ''blog/b.md'', ''blog/g.md''])],
          cat_to_files = [(''news'', [''blog/a.md''])],
          stderr = [ErrorReading ''blog/c.md'', ErrorParsing ''blog/d.md'']\<rparr>"
  by code_simp

lemma blog_csv_keys:
  "map fst (sort_and_filter [(''zeta'', 1), (''alpha'', 3)] ''count'' 2 0) = [''alpha'']"
  by code_simp

lemma blog_csv_text:
  "view_by_keys blog_env ''csv'' ''Files by Tag'' ''files_by_tag'' [''alpha'']
     [(''zeta'', [''blog/a.md'']), (''alpha'', [''blog/a.md'', ''blog/b.md'', ''blog/g.md''])]
   = ''# files_by_tag'' @ nl @ ''name,file'' @ nl
     @ dquote @ ''alpha'' @ dquote @ '','' @ dquote @ ''blog/a.md'' @ dquote @ nl
     @ dquote @ ''alpha'' @ dquote @ '','' @ dquote @ ''blog/b.md'' @ dquote @ nl
     @ dquote @ ''alpha'' @ dquote @ '','' @ dquote @ ''blog/g.md'' @ dquote @ nl"
  by code_simp

theorem mapping_view_follows_filter_witness:
  "(\<exists>r. main blog_env
          (default_args\<lparr>arg_dir := ''blog'', arg_by_tag := True, arg_format := ''csv'',
                        arg_min_count := 2\<rparr>) = Inr r
        \<and> by_tag_view r =
            Some (''# files_by_tag'' @ nl @ ''name,file'' @ nl
                  @ dquote @ ''alpha'' @ dquote @ '','' @ dquote @ ''blog/a.md'' @ dquote @ nl
                  @ dquote @ ''alpha'' @ dquote @ '','' @ dquote @ ''blog/b.md'' @ dquote @ nl
                  @ dquote @ ''alpha'' @ dquote @ '','' @ dquote @ ''blog/g.md'' @ dquote @ nl)
        \<and> by_cat_view r = None)
   \<and> map fst [(''zeta'', [''blog/a.md'']),
               (''alpha'', [''blog/a.md'', ''blog/b.md'', ''blog/g.md''])] = [''zeta'', ''alpha'']"
  using mapping_view_follows_filter [OF blog_csv_collect]
  by (simp add: default_args_def blog_csv_keys blog_csv_text)


end
